theory Spec2Isabelle
  imports Complex_Main "HOL-Library.AList" "HOL-Library.Sublist"
begin

section \<open>Python values, exceptions and the HTTP transport\<close>

text \<open>
  The client of \<^verbatim>\<open>src/webservice.py\<close> (class \<^verbatim>\<open>AuthorizedHumbleAPI\<close>) is embedded
  function by function. A name of the source that starts with an underscore is written
  with the prefix \<open>u_\<close> (\<^verbatim>\<open>_request\<close> is \<open>u_request\<close>), since an Isabelle name cannot
  start with one. Python strings are lists of characters with code points below 256.

  A value decoded from JSON is \<open>None\<close>, a bool, an int, a float, a str, a list or a dict
  (insertion-ordered, keys unique). Finite floats are kept as rationals.
\<close>

datatype json =
    JNull
  | JBool bool
  | JInt int
  | JFloat rat
  | JStr string
  | JArr "json list"
  | JObj "(string \<times> json) list"

text \<open>
  The exceptions the code can meet, all of them subclasses of Python's \<^verbatim>\<open>Exception\<close>
  (so \<^verbatim>\<open>except Exception\<close> catches each). \<open>ClientResponseError\<close> carries the HTTP
  status; \<open>KeyError\<close> the missing key; \<open>OtherException\<close> is any other one. Messages
  are not modelled.
\<close>

datatype exn =
    ClientResponseError nat
  | ClientError
  | TimeoutError
  | AttributeError
  | KeyError string
  | TypeError
  | ValueError
  | UnboundLocalError
  | JSONDecodeError
  | Base64Error
  | UnicodeDecodeError
  | CookieError
  | RuntimeError
  | UnknownBackendResponse
  | OtherException


text \<open>
  \<^verbatim>\<open>x['key']\<close> with a string key: a dict looks the key up (KeyError when missing);
  every other JSON value raises TypeError.
\<close>

fun py_getitem :: "json \<Rightarrow> string \<Rightarrow> exn + json" where
  "py_getitem (JObj kvs) k = (case map_of kvs k of None \<Rightarrow> Inl (KeyError k) | Some v \<Rightarrow> Inr v)"
| "py_getitem _ k = Inl TypeError"

text \<open>
  \<^verbatim>\<open>for x in v\<close>: a list gives its elements, a dict its keys, a str its characters;
  \<open>None\<close>, bools and numbers are not iterable.
\<close>

fun py_iter :: "json \<Rightarrow> exn + json list" where
  "py_iter (JArr xs) = Inr xs"
| "py_iter (JObj kvs) = Inr (map (\<lambda>kv. JStr (fst kv)) kvs)"
| "py_iter (JStr s) = Inr (map (\<lambda>c. JStr [c]) s)"
| "py_iter _ = Inl TypeError"

text \<open>Decimal text of a Python int, as \<^verbatim>\<open>str\<close> and \<^verbatim>\<open>format\<close> print it.\<close>

definition digit_char :: "nat \<Rightarrow> char" where
  "digit_char d = char_of (48 + d)"

fun str_nat :: "nat \<Rightarrow> string" where
  "str_nat n = (if n < 10 then [digit_char n] else str_nat (n div 10) @ [digit_char (n mod 10)])"

declare str_nat.simps [simp del]

definition str_int :: "int \<Rightarrow> string" where
  "str_int i = (if i < 0 then CHR ''-'' # str_nat (nat (- i)) else str_nat (nat i))"

text \<open>
  \<^verbatim>\<open>'{}'.format(v)\<close> and \<^verbatim>\<open>f'{v}'\<close>: a str is inserted as it is; for every other JSON
  value the text is that of \<^verbatim>\<open>repr\<close>, which is Python's own and is taken as the
  parameter \<open>repr\<close> for floats and containers.
\<close>

fun py_format :: "(json \<Rightarrow> string) \<Rightarrow> json \<Rightarrow> string" where
  "py_format repr (JStr s) = s"
| "py_format repr (JInt i) = str_int i"
| "py_format repr JNull = ''None''"
| "py_format repr (JBool b) = (if b then ''True'' else ''False'')"
| "py_format repr v = repr v"

text \<open>
  A request as the code hands it to \<^verbatim>\<open>self._session.request\<close>: the method, the full
  URL and the keyword arguments the code uses.
\<close>

record request =
  req_method :: string
  req_url :: string
  req_params :: "(string \<times> string) list"
  req_raise_for_status :: "bool option"
  req_allow_redirects :: "bool option"

text \<open>
  A response object of the HTTP library. The code reads its \<^verbatim>\<open>status\<close> and awaits
  \<^verbatim>\<open>json()\<close>, \<^verbatim>\<open>text()\<close> and \<^verbatim>\<open>read()\<close>, each of which returns or raises.
\<close>

record response =
  resp_status :: nat
  resp_json :: "exn + json"
  resp_text :: "exn + string"
  resp_read :: "exn + string"

text \<open>
  The remote service with the HTTP library in front of it: a request in a state of the
  service gives a response or an exception, and the next state.
\<close>

type_synonym 's transport = "request \<Rightarrow> 's \<Rightarrow> (exn + response) \<times> 's"

text \<open>
  The client's session: the cookie jar (name and value of each cookie), and, to speak
  about network calls, the requests issued so far (oldest first) and the state of the
  remote service.
\<close>

record 's session =
  cookie_jar :: "(string \<times> string) list"
  sent :: "request list"
  remote :: 's

definition new_client :: "'s \<Rightarrow> 's session" where
  "new_client st = \<lparr>cookie_jar = [], sent = [], remote = st\<rparr>"

definition session_request :: "'s transport \<Rightarrow> request \<Rightarrow> 's session \<Rightarrow> (exn + response) \<times> 's session" where
  "session_request net rq s =
     (case net rq (remote s) of
        (r, st) \<Rightarrow> (r, s\<lparr>sent := sent s @ [rq], remote := st\<rparr>))"

definition mk_request :: "string \<Rightarrow> string \<Rightarrow> request" where
  "mk_request m url =
     \<lparr>req_method = m, req_url = url, req_params = [],
      req_raise_for_status = None, req_allow_redirects = None\<rparr>"

section \<open>The client\<close>

definition u_AUTHORITY :: string where
  "u_AUTHORITY = ''https://www.humblebundle.com/''"

definition u_ORDER_LIST_URL :: string where
  "u_ORDER_LIST_URL = ''api/v1/user/order''"

definition u_SUBSCRIPTION_HOME :: string where
  "u_SUBSCRIPTION_HOME = ''subscription/home''"

definition u_SUBSCRIPTION_PRODUCTS :: string where
  "u_SUBSCRIPTION_PRODUCTS = ''api/v1/subscriptions/humble_monthly/subscription_products_with_gamekeys''"


definition u_TROVE_CHUNK_URL :: "string \<Rightarrow> string" where
  "u_TROVE_CHUNK_URL index =
     ''api/v1/trove/chunk?property=popularity&direction=desc&index='' @ index"

definition u_DOWNLOAD_SIGN :: string where
  "u_DOWNLOAD_SIGN = ''api/v1/user/download/sign''"

definition u_HUMBLER_REDEEM_DOWNLOAD :: string where
  "u_HUMBLER_REDEEM_DOWNLOAD = ''humbler/redeemdownload''"

text \<open>
  \<^verbatim>\<open>handle_exception\<close> (lines 21-28): the body runs inside \<^verbatim>\<open>try\<close>, and
  \<^verbatim>\<open>except Exception as e: logger.error(e)\<close> ends without raising again. The context
  manager therefore suppresses every exception of its body: the \<^verbatim>\<open>with\<close> statement
  completes normally, and the enclosing \<^verbatim>\<open>galaxy.http.handle_exception()\<close> sees
  nothing to translate. \<open>None\<close> is a body that raised, \<open>Some v\<close> one that ended with
  \<open>v\<close>.
\<close>

definition handle_exception :: "exn + 'a \<Rightarrow> 'a option" where
  "handle_exception body = (case body of Inl e \<Rightarrow> None | Inr v \<Rightarrow> Some v)"

text \<open>
  \<^verbatim>\<open>_request\<close>: the authority is put before the path; the response is returned from
  inside the \<^verbatim>\<open>with\<close> block. When the request raised, the block is left normally and
  the method ends without a \<^verbatim>\<open>return\<close>: the result is Python's \<open>None\<close>.
\<close>

definition u_request :: "'s transport \<Rightarrow> request \<Rightarrow> 's session \<Rightarrow> response option \<times> 's session" where
  "u_request net rq s =
     (case session_request net (rq\<lparr>req_url := u_AUTHORITY @ req_url rq\<rparr>) s of
        (r, s1) \<Rightarrow> (handle_exception r, s1))"

text \<open>Attribute access on the result of \<open>u_request\<close>: on \<open>None\<close> it raises AttributeError.\<close>

definition await_json :: "response option \<Rightarrow> exn + json" where
  "await_json res = (case res of None \<Rightarrow> Inl AttributeError | Some r \<Rightarrow> resp_json r)"

definition await_text :: "response option \<Rightarrow> exn + string" where
  "await_text res = (case res of None \<Rightarrow> Inl AttributeError | Some r \<Rightarrow> resp_text r)"

definition await_read :: "response option \<Rightarrow> exn + string" where
  "await_read res = (case res of None \<Rightarrow> Inl AttributeError | Some r \<Rightarrow> resp_read r)"

text \<open>\<^verbatim>\<open>res.raise_for_status()\<close> of the HTTP library: a status of 400 or more raises.\<close>

definition raise_for_status :: "response \<Rightarrow> exn + unit" where
  "raise_for_status r =
     (if 400 \<le> resp_status r then Inl (ClientResponseError (resp_status r)) else Inr ())"

subsection \<open>Authentication\<close>

text \<open>
  \<^verbatim>\<open>base64.b64decode(s)\<close> of a str, as the standard library computes it without
  validation: a str with a character above 127 is refused (ValueError); then
  \<^verbatim>\<open>binascii.a2b_base64\<close> reads the characters one by one, skips every character that
  is neither of the alphabet nor \<^verbatim>\<open>=\<close>, stops at a padding that completes a group
  of four, and refuses (binascii.Error, here \<open>Base64Error\<close>) an input that ends inside
  a group. Bytes are characters.
\<close>

definition b64_alphabet :: string where
  "b64_alphabet = ''ABCDEFGHIJKLMNOPQRSTUVWXYZabcdefghijklmnopqrstuvwxyz0123456789+/''"

fun index_of :: "'a \<Rightarrow> 'a list \<Rightarrow> nat option" where
  "index_of x [] = None"
| "index_of x (y # ys) = (if x = y then Some 0 else map_option Suc (index_of x ys))"

definition b64_value :: "char \<Rightarrow> nat option" where
  "b64_value c = index_of c b64_alphabet"

fun a2b_base64 :: "string \<Rightarrow> nat \<Rightarrow> nat \<Rightarrow> nat \<Rightarrow> string \<Rightarrow> exn + string" where
  "a2b_base64 [] quad_pos pads leftchar out =
     (if quad_pos \<noteq> 0 then Inl Base64Error else Inr out)"
| "a2b_base64 (c # cs) quad_pos pads leftchar out =
     (if c = CHR ''='' then
        (if 2 \<le> quad_pos then
           (if 4 \<le> quad_pos + (pads + 1) then Inr out
            else a2b_base64 cs quad_pos (pads + 1) leftchar out)
         else a2b_base64 cs quad_pos pads leftchar out)
      else
        (case b64_value c of
           None \<Rightarrow> a2b_base64 cs quad_pos pads leftchar out
         | Some v \<Rightarrow>
             if quad_pos = 0 then a2b_base64 cs 1 0 v out
             else if quad_pos = 1 then
               a2b_base64 cs 2 0 (v mod 16) (out @ [char_of (leftchar * 4 + v div 16)])
             else if quad_pos = 2 then
               a2b_base64 cs 3 0 (v mod 4) (out @ [char_of (leftchar * 16 + v div 4)])
             else a2b_base64 cs 0 0 0 (out @ [char_of (leftchar * 64 + v)])))"

definition b64decode :: "string \<Rightarrow> exn + string" where
  "b64decode s =
     (if \<exists>c \<in> set s. 127 < (of_char c :: nat) then Inl ValueError
      else a2b_base64 s 0 0 0 [])"

text \<open>
  \<^verbatim>\<open>_decode_user_id\<close> (lines 85-89). \<^verbatim>\<open>split('|')[0]\<close> is the text before the first
  bar. \<^verbatim>\<open>json.loads\<close> is the parameter \<open>json_loads\<close>.
\<close>

definition u_decode_user_id :: "(string \<Rightarrow> exn + json) \<Rightarrow> string \<Rightarrow> exn + json" where
  "u_decode_user_id json_loads u_simpleauth_sess =
     (let info = takeWhile (\<lambda>c. c \<noteq> CHR ''|'') u_simpleauth_sess;
          info = info @ ''==''
      in case b64decode info of
           Inl e \<Rightarrow> Inl e
         | Inr bytes \<Rightarrow>
             (case json_loads bytes of
                Inl e \<Rightarrow> Inl e
              | Inr decoded \<Rightarrow> py_getitem decoded ''user_id''))"

text \<open>
  \<^verbatim>\<open>authenticate\<close> (lines 91-101). The codec \<^verbatim>\<open>unicode_escape\<close> and the check of
  the cookie name by \<^verbatim>\<open>http.cookies\<close> (a name of legal characters that is not a
  reserved word, or CookieError) are the parameters \<open>unicode_escape\<close> and
  \<open>legal_key\<close>. \<^verbatim>\<open>update_cookies\<close> puts the cookie into the jar, in place of one of
  the same name.
\<close>

record auth_cookie =
  cookie_name :: string
  cookie_value :: string

definition authenticate ::
  "(string \<Rightarrow> exn + string) \<Rightarrow> (string \<Rightarrow> bool) \<Rightarrow> (string \<Rightarrow> exn + json) \<Rightarrow>
   auth_cookie \<Rightarrow> 's session \<Rightarrow> (exn + json) \<times> 's session" where
  "authenticate unicode_escape legal_key json_loads auth_cookie s =
     (case unicode_escape (cookie_value auth_cookie) of
        Inl e \<Rightarrow> (Inl e, s)
      | Inr unescaped \<Rightarrow>
          (let cookie_val = filter (\<lambda>c. c \<noteq> CHR 0x22) unescaped
           in if \<not> legal_key (cookie_name auth_cookie) then (Inl CookieError, s)
              else
                (u_decode_user_id json_loads cookie_val,
                 s\<lparr>cookie_jar := AList.update (cookie_name auth_cookie) cookie_val (cookie_jar s)\<rparr>)))"

text \<open>\<^verbatim>\<open>is_authenticated\<close> (lines 61-63): the jar holds a cookie.\<close>

definition is_authenticated :: "'s session \<Rightarrow> bool" where
  "is_authenticated s = (cookie_jar s \<noteq> [])"


subsection \<open>Session validity\<close>

text \<open>
  \<^verbatim>\<open>_is_session_valid\<close> (lines 71-83). Inside the \<^verbatim>\<open>with\<close> block the body either
  returns \<open>False\<close> (a ClientResponseError with status 401), raises (any other exception,
  the ClientResponseError raised again included) or completes. After the block comes
  \<^verbatim>\<open>return True\<close>.
\<close>

definition u_is_session_valid :: "'s transport \<Rightarrow> 's session \<Rightarrow> bool \<times> 's session" where
  "u_is_session_valid net s =
     (case session_request net (mk_request ''get'' (u_AUTHORITY @ u_ORDER_LIST_URL)) s of
        (r, s1) \<Rightarrow>
          (let body =
                 (case r of
                    Inr res \<Rightarrow> Inr None
                  | Inl (ClientResponseError st) \<Rightarrow>
                      if st = 401 then Inr (Some False) else Inl (ClientResponseError st)
                  | Inl e \<Rightarrow> Inl e)
           in case handle_exception body of
                Some (Some b) \<Rightarrow> (b, s1)
              | _ \<Rightarrow> (True, s1)))"

subsection \<open>Download workflow\<close>

text \<open>
  \<^verbatim>\<open>DownloadStructItem\<close> and \<^verbatim>\<open>TroveDownload\<close> are records of the package
  \<^verbatim>\<open>model.download\<close>; the client reads \<^verbatim>\<open>web\<close> (a str or \<open>None\<close>) and, of a trove
  download, \<^verbatim>\<open>machine_name\<close>.
\<close>

record download =
  web :: "string option"
  machine_name :: string

text \<open>\<^verbatim>\<open>sign_download\<close> (lines 235-240).\<close>

definition sign_request :: "string \<Rightarrow> string \<Rightarrow> request" where
  "sign_request mn filename =
     (mk_request ''post'' u_DOWNLOAD_SIGN)
       \<lparr>req_params := [(''machine_name'', mn), (''filename'', filename)]\<rparr>"

definition sign_download :: "'s transport \<Rightarrow> string \<Rightarrow> string \<Rightarrow> 's session \<Rightarrow> (exn + json) \<times> 's session" where
  "sign_download net mn filename s =
     (case u_request net (sign_request mn filename) s of
        (res, s1) \<Rightarrow> (await_json res, s1))"

text \<open>\<^verbatim>\<open>params.update(custom_data)\<close>: each key of the second dict is set in the first.\<close>

definition dict_update :: "(string \<times> string) list \<Rightarrow> (string \<times> string) list \<Rightarrow> (string \<times> string) list" where
  "dict_update params custom = foldl (\<lambda>d kv. AList.update (fst kv) (snd kv) d) params custom"

text \<open>
  \<^verbatim>\<open>_reedem_download\<close> (lines 242-254): the body read from the response must be the
  bytes \<^verbatim>\<open>{'success': True}\<close>; anything else raises UnknownBackendResponse.
\<close>

definition u_reedem_download :: "'s transport \<Rightarrow> string \<Rightarrow> (string \<times> string) list \<Rightarrow> 's session \<Rightarrow> (exn + unit) \<times> 's session" where
  "u_reedem_download net download_machine_name custom_data s =
     (let params =
            dict_update [(''download'', download_machine_name), (''download_page'', ''false'')]
              custom_data
      in case u_request net ((mk_request ''post'' u_HUMBLER_REDEEM_DOWNLOAD)\<lparr>req_params := params\<rparr>) s of
           (res, s1) \<Rightarrow>
             (case await_read res of
                Inl e \<Rightarrow> (Inl e, s1)
              | Inr content \<Rightarrow>
                  if content \<noteq> ''{'success': True}'' then (Inl UnknownBackendResponse, s1)
                  else (Inr (), s1)))"

text \<open>
  \<^verbatim>\<open>sign_url_subproduct\<close> (lines 260-270). \<^verbatim>\<open>_filename_from_web_link\<close> is
  \<^verbatim>\<open>yarl.URL(link).parts[-1]\<close>, a function of the URL library: it is the parameter
  \<open>u_filename_from_web_link\<close>. The \<^verbatim>\<open>try\<close> around the redeem call catches every
  Exception, logs it and goes on to \<^verbatim>\<open>return urls\<close>.
\<close>

definition sign_url_subproduct ::
  "'s transport \<Rightarrow> (string \<Rightarrow> exn + string) \<Rightarrow> download \<Rightarrow> string \<Rightarrow> 's session \<Rightarrow> (exn + json) \<times> 's session" where
  "sign_url_subproduct net u_filename_from_web_link download download_machine_name s =
     (case web download of
        None \<Rightarrow> (Inl RuntimeError, s)
      | Some w \<Rightarrow>
          (case u_filename_from_web_link w of
             Inl e \<Rightarrow> (Inl e, s)
           | Inr filename \<Rightarrow>
               (case sign_download net download_machine_name filename s of
                  (Inl e, s1) \<Rightarrow> (Inl e, s1)
                | (Inr urls, s1) \<Rightarrow>
                    (case u_reedem_download net download_machine_name
                            [(''download_url_file'', filename)] s1 of
                       (Inl e, s2) \<Rightarrow> (Inr urls, s2)
                     | (Inr u, s2) \<Rightarrow> (Inr urls, s2)))))"

text \<open>\<^verbatim>\<open>sign_url_trove\<close> (lines 272-281).\<close>

definition sign_url_trove ::
  "'s transport \<Rightarrow> download \<Rightarrow> string \<Rightarrow> 's session \<Rightarrow> (exn + json) \<times> 's session" where
  "sign_url_trove net download product_machine_name s =
     (case web download of
        None \<Rightarrow> (Inl RuntimeError, s)
      | Some w \<Rightarrow>
          (case sign_download net (machine_name download) w s of
             (Inl e, s1) \<Rightarrow> (Inl e, s1)
           | (Inr urls, s1) \<Rightarrow>
               (case u_reedem_download net (machine_name download)
                       [(''product'', product_machine_name)] s1 of
                  (Inl e, s2) \<Rightarrow> (Inr urls, s2)
                | (Inr u, s2) \<Rightarrow> (Inr urls, s2))))"


subsection \<open>Pagination generators\<close>

text \<open>
  The three generators are \<^verbatim>\<open>while True\<close> loops. One pass of a loop body yields some
  items and then either returns (the generator is exhausted), raises, or reaches the
  end of the body with a new value of the loop variable. The embedding gives what a
  consumer that drains the generator sees: the items in the order they are yielded and
  how the generator ended, with the session it left. \<open>None\<close> is a loop that never ends.
\<close>

datatype ('y, 'c) loop_step =
    LReturn
  | LRaise "'y list" exn
  | LNext "'y list" 'c

datatype gen_end = Returned | Raised exn

partial_function (option) drive ::
  "('c \<Rightarrow> 'w \<Rightarrow> ('y, 'c) loop_step \<times> 'w) \<Rightarrow> 'c \<Rightarrow> 'w \<Rightarrow> (('y list \<times> gen_end) \<times> 'w) option" where
  "drive body c w =
     (case body c w of
        (LReturn, w1) \<Rightarrow> Some (([], Returned), w1)
      | (LRaise ys e, w1) \<Rightarrow> Some ((ys, Raised e), w1)
      | (LNext ys c', w1) \<Rightarrow>
          Option.bind (drive body c' w1) (\<lambda>r. Some ((ys @ fst (fst r), snd (fst r)), snd r)))"

text \<open>\<^verbatim>\<open>_get_trove_details\<close> (lines 116-118).\<close>

definition trove_request :: "int \<Rightarrow> request" where
  "trove_request chunk_index = mk_request ''get'' (u_TROVE_CHUNK_URL (str_int chunk_index))"

definition u_get_trove_details :: "'s transport \<Rightarrow> int \<Rightarrow> 's session \<Rightarrow> (exn + json) \<times> 's session" where
  "u_get_trove_details net chunk_index s =
     (case u_request net (trove_request chunk_index) s of
        (res, s1) \<Rightarrow> (await_json res, s1))"

text \<open>
  \<^verbatim>\<open>get_trove_details\<close> (lines 222-233): \<^verbatim>\<open>yield chunk_details\<close> yields the chunk
  itself, one item for each fetched array. Without an argument, \<^verbatim>\<open>from_chunk\<close> is 0.
\<close>

definition trove_pass :: "'s transport \<Rightarrow> int \<Rightarrow> 's session \<Rightarrow> (json, int) loop_step \<times> 's session" where
  "trove_pass net index s =
     (case u_get_trove_details net index s of
        (Inl e, s1) \<Rightarrow> (LRaise [] e, s1)
      | (Inr chunk_details, s1) \<Rightarrow>
          (case chunk_details of
             JArr xs \<Rightarrow>
               if length xs = 0 then (LReturn, s1)
               else (LNext [chunk_details] (index + 1), s1)
           | _ \<Rightarrow> (LRaise [] UnknownBackendResponse, s1)))"

definition get_trove_details :: "'s transport \<Rightarrow> int \<Rightarrow> 's session \<Rightarrow> ((json list \<times> gen_end) \<times> 's session) option" where
  "get_trove_details net from_chunk s = drive (trove_pass net) from_chunk s"

text \<open>
  \<^verbatim>\<open>get_subscription_products_with_gamekeys\<close> (lines 120-140). The request is made
  with \<^verbatim>\<open>raise_for_status=False\<close>; \<^verbatim>\<open>res.raise_for_status()\<close> runs inside
  \<^verbatim>\<open>with handle_exception()\<close>, so what it raises is suppressed and the body goes on.
\<close>

definition products_request :: "(json \<Rightarrow> string) \<Rightarrow> json \<Rightarrow> request" where
  "products_request repr cursor =
     (mk_request ''GET'' (u_SUBSCRIPTION_PRODUCTS @ ''/'' @ py_format repr cursor))
       \<lparr>req_raise_for_status := Some False\<rparr>"

definition products_pass :: "'s transport \<Rightarrow> (json \<Rightarrow> string) \<Rightarrow> json \<Rightarrow> 's session \<Rightarrow> (json, json) loop_step \<times> 's session" where
  "products_pass net repr cursor s =
     (case u_request net (products_request repr cursor) s of
        (None, s1) \<Rightarrow> (LRaise [] AttributeError, s1)
      | (Some res, s1) \<Rightarrow>
          if resp_status res = 404 then (LReturn, s1)
          else
            (case handle_exception (raise_for_status res) of
               _ \<Rightarrow>
                 (case resp_json res of
                    Inl e \<Rightarrow> (LRaise [] e, s1)
                  | Inr res_json \<Rightarrow>
                      (case py_getitem res_json ''products'' of
                         Inl e \<Rightarrow> (LRaise [] e, s1)
                       | Inr products \<Rightarrow>
                           (case py_iter products of
                              Inl e \<Rightarrow> (LRaise [] e, s1)
                            | Inr items \<Rightarrow>
                                (case py_getitem res_json ''cursor'' of
                                   Inl e \<Rightarrow> (LRaise items e, s1)
                                 | Inr cursor' \<Rightarrow> (LNext items cursor', s1)))))))"

definition get_subscription_products_with_gamekeys ::
  "'s transport \<Rightarrow> (json \<Rightarrow> string) \<Rightarrow> 's session \<Rightarrow> ((json list \<times> gen_end) \<times> 's session) option" where
  "get_subscription_products_with_gamekeys net repr s = drive (products_pass net repr) (JStr []) s"







subsection \<open>Webpack scraper\<close>

text \<open>\<^verbatim>\<open>txt.find(sub)\<close>: the first index at which \<open>sub\<close> occurs, or -1.\<close>

fun find_from :: "string \<Rightarrow> string \<Rightarrow> int \<Rightarrow> int" where
  "find_from [] sub i = (if sub = [] then i else - 1)"
| "find_from (c # cs) sub i = (if prefix sub (c # cs) then i else find_from cs sub (i + 1))"

definition py_find :: "string \<Rightarrow> string \<Rightarrow> int" where
  "py_find txt sub = find_from txt sub 0"

text \<open>\<^verbatim>\<open>txt[k:]\<close>: a negative \<open>k\<close> counts from the end.\<close>

definition py_slice_from :: "string \<Rightarrow> int \<Rightarrow> string" where
  "py_slice_from txt k =
     (if 0 \<le> k then drop (nat k) txt else drop (nat (int (length txt) + k)) txt)"

text \<open>\<^verbatim>\<open>str.strip()\<close>: the whitespace characters of Python below code point 256.\<close>

definition py_isspace :: "char \<Rightarrow> bool" where
  "py_isspace c =
     (let n = (of_char c :: nat)
      in (9 \<le> n \<and> n \<le> 13) \<or> (28 \<le> n \<and> n \<le> 32) \<or> n = 133 \<or> n = 160)"

definition py_strip :: "string \<Rightarrow> string" where
  "py_strip s = rev (dropWhile py_isspace (rev (dropWhile py_isspace s)))"

definition script_marker :: "string \<Rightarrow> string" where
  "script_marker webpack_id = ''<script id=\"'' @ webpack_id @ ''\" type=\"application/json\">''"

text \<open>
  \<^verbatim>\<open>_get_webpack_data\<close> (lines 166-176). \<^verbatim>\<open>json.JSONDecoder().raw_decode\<close> is the
  parameter \<open>raw_decode\<close>: it returns the first JSON value of a text with the index
  where it ends, or raises. Only its JSONDecodeError is turned into
  UnknownBackendResponse. The result of \<^verbatim>\<open>find\<close> is not compared with -1.
\<close>

definition u_get_webpack_data ::
  "'s transport \<Rightarrow> (string \<Rightarrow> exn + json \<times> nat) \<Rightarrow> string \<Rightarrow> string \<Rightarrow> 's session \<Rightarrow> (exn + json) \<times> 's session" where
  "u_get_webpack_data net raw_decode path webpack_id s =
     (case u_request net ((mk_request ''GET'' path)\<lparr>req_allow_redirects := Some False\<rparr>) s of
        (res, s1) \<Rightarrow>
          (case await_text res of
             Inl e \<Rightarrow> (Inl e, s1)
           | Inr txt \<Rightarrow>
               (let search = script_marker webpack_id;
                    json_start = py_find txt search + int (length search);
                    candidate = py_strip (py_slice_from txt json_start)
                in case raw_decode candidate of
                     Inl e \<Rightarrow> (Inl (if e = JSONDecodeError then UnknownBackendResponse else e), s1)
                   | Inr parsed \<Rightarrow> (Inr (fst parsed), s1))))"

text \<open>\<^verbatim>\<open>get_subscriber_hub_data\<close> (lines 186-188).\<close>

definition get_subscriber_hub_data ::
  "'s transport \<Rightarrow> (string \<Rightarrow> exn + json \<times> nat) \<Rightarrow> 's session \<Rightarrow> (exn + json) \<times> 's session" where
  "get_subscriber_hub_data net raw_decode s =
     u_get_webpack_data net raw_decode u_SUBSCRIPTION_HOME ''webpack-subscriber-hub-data'' s"


section \<open>A scripted remote service\<close>

text \<open>
  A service that answers the successive requests with the replies of a list, whatever
  the request; once the list is used up, the connection fails.
\<close>

definition scripted :: "((exn + response) list) transport" where
  "scripted rq st = (case st of [] \<Rightarrow> (Inl ClientError, []) | r # rs \<Rightarrow> (r, rs))"

definition ok_json :: "json \<Rightarrow> response" where
  "ok_json v =
     \<lparr>resp_status = 200, resp_json = Inr v, resp_text = Inl UnicodeDecodeError,
      resp_read = Inr []\<rparr>"

definition http_status :: "nat \<Rightarrow> response" where
  "http_status st =
     \<lparr>resp_status = st, resp_json = Inl JSONDecodeError, resp_text = Inr [],
      resp_read = Inr []\<rparr>"

definition ok_body :: "string \<Rightarrow> response" where
  "ok_body b =
     \<lparr>resp_status = 200, resp_json = Inl JSONDecodeError, resp_text = Inr b,
      resp_read = Inr b\<rparr>"

text \<open>
  \<open>serves net st xs st'\<close>: from the state \<open>st\<close>, the service answers the requests of
  \<open>xs\<close>, sent in this order, with the replies paired with them, and is then in \<open>st'\<close>.
  \<open>wire rq\<close> is the request \<open>rq\<close> of \<open>u_request\<close> as it goes out.
\<close>

fun serves :: "'s transport \<Rightarrow> 's \<Rightarrow> (request \<times> (exn + response)) list \<Rightarrow> 's \<Rightarrow> bool" where
  "serves net st [] st' = (st' = st)"
| "serves net st (x # xs) st' =
     (case net (fst x) st of (r, st1) \<Rightarrow> r = snd x \<and> serves net st1 xs st')"

definition wire :: "request \<Rightarrow> request" where
  "wire rq = rq\<lparr>req_url := u_AUTHORITY @ req_url rq\<rparr>"

text \<open>What the trove and the products generator expect of a page.\<close>

definition is_trove_chunk :: "response \<times> json list \<Rightarrow> bool" where
  "is_trove_chunk p = (resp_json (fst p) = Inr (JArr (snd p)) \<and> snd p \<noteq> [])"

definition is_products_page :: "response \<times> json list \<times> json \<Rightarrow> bool" where
  "is_products_page p =
     (resp_status (fst p) \<noteq> 404 \<and>
      (case resp_json (fst p) of
         Inl e \<Rightarrow> False
       | Inr d \<Rightarrow> py_getitem d ''products'' = Inr (JArr (fst (snd p)))
                  \<and> py_getitem d ''cursor'' = Inr (snd (snd p))))"




section \<open>Base64 encoding\<close>

text \<open>
  The Base64 text of a byte string (RFC 4648), with its padding, and the same text
  without it: what a token's first segment is when it is well formed.
\<close>

definition b64_char :: "nat \<Rightarrow> char" where
  "b64_char i = b64_alphabet ! i"

fun b64encode :: "string \<Rightarrow> string" where
  "b64encode [] = []"
| "b64encode [a] =
     [b64_char (of_char a div 4), b64_char (of_char a mod 4 * 16), CHR ''='', CHR ''='']"
| "b64encode [a, b] =
     [b64_char (of_char a div 4), b64_char (of_char a mod 4 * 16 + of_char b div 16),
      b64_char (of_char b mod 16 * 4), CHR ''='']"
| "b64encode (a # b # c # bs) =
     [b64_char (of_char a div 4), b64_char (of_char a mod 4 * 16 + of_char b div 16),
      b64_char (of_char b mod 16 * 4 + of_char c div 64), b64_char (of_char c mod 64)]
     @ b64encode bs"

definition b64encode_unpadded :: "string \<Rightarrow> string" where
  "b64encode_unpadded bs = filter (\<lambda>c. c \<noteq> CHR ''='') (b64encode bs)"


section \<open>A JSON decoder for the examples\<close>

text \<open>
  The decoder of Python's \<^verbatim>\<open>json\<close> package on the JSON texts made of \<^verbatim>\<open>null\<close>,
  \<^verbatim>\<open>true\<close>, \<^verbatim>\<open>false\<close>, integers, strings without escape sequences, arrays and
  objects. It stands for the parameters \<open>raw_decode\<close> and \<open>ref_json_loads\<close> in the
  examples. What it does not cover (escape sequences, fractions and exponents,
  \<^verbatim>\<open>NaN\<close>, \<^verbatim>\<open>Infinity\<close>, bytes above 127) it answers with \<open>OtherException\<close>, as it
  does when the nesting is deeper than the text is long. The first argument of the
  scanning functions bounds the number of values still to be read.
\<close>

definition json_ws :: "char \<Rightarrow> bool" where
  "json_ws c = (c = CHR '' '' \<or> c = CHR 0x09 \<or> c = CHR 0x0A \<or> c = CHR 0x0D)"

definition skip_ws :: "string \<Rightarrow> string" where
  "skip_ws s = dropWhile json_ws s"

definition is_digit :: "char \<Rightarrow> bool" where
  "is_digit c = (48 \<le> (of_char c :: nat) \<and> (of_char c :: nat) \<le> 57)"

definition nat_of_digits :: "string \<Rightarrow> nat" where
  "nat_of_digits ds = foldl (\<lambda>n c. 10 * n + (of_char c - 48)) 0 ds"

fun scanstring :: "string \<Rightarrow> string \<Rightarrow> exn + string \<times> string" where
  "scanstring acc [] = Inl JSONDecodeError"
| "scanstring acc (c # cs) =
     (if c = CHR 0x22 then Inr (rev acc, cs)
      else if c = CHR 0x5C then Inl OtherException
      else if (of_char c :: nat) < 32 then Inl JSONDecodeError
      else scanstring (c # acc) cs)"

text \<open>
  The number pattern of the decoder: an optional minus sign, then \<^verbatim>\<open>0\<close> or a digit
  from 1 to 9 followed by digits. \<open>None\<close>: the text does not start with a number.
\<close>

definition starts_float_tail :: "string \<Rightarrow> bool" where
  "starts_float_tail s =
     (case s of
        [] \<Rightarrow> False
      | c # cs \<Rightarrow>
          if c = CHR ''.'' then (case cs of [] \<Rightarrow> False | d # ds \<Rightarrow> is_digit d)
          else if c = CHR ''e'' \<or> c = CHR ''E'' then
            (case cs of
               [] \<Rightarrow> False
             | d # ds \<Rightarrow>
                 if d = CHR ''+'' \<or> d = CHR ''-'' then (case ds of [] \<Rightarrow> False | x # xs \<Rightarrow> is_digit x)
                 else is_digit d)
          else False)"

definition match_number :: "string \<Rightarrow> (exn + json \<times> string) option" where
  "match_number s =
     (let neg = (s \<noteq> [] \<and> hd s = CHR ''-'');
          s1 = (if neg then tl s else s)
      in case s1 of
           [] \<Rightarrow> None
         | d # ds \<Rightarrow>
             if \<not> is_digit d then None
             else
               (let digs = (if d = CHR ''0'' then [d] else d # takeWhile is_digit ds);
                    rest = (if d = CHR ''0'' then ds else dropWhile is_digit ds);
                    n = int (nat_of_digits digs)
                in if starts_float_tail rest then Some (Inl OtherException)
                   else Some (Inr (JInt (if neg then - n else n), rest))))"

fun scan_once :: "nat \<Rightarrow> string \<Rightarrow> exn + json \<times> string"
  and scan_array :: "nat \<Rightarrow> json list \<Rightarrow> string \<Rightarrow> exn + json \<times> string"
  and scan_object :: "nat \<Rightarrow> (string \<times> json) list \<Rightarrow> string \<Rightarrow> exn + json \<times> string" where
  "scan_once 0 s = Inl OtherException"
| "scan_once (Suc n) s =
     (case s of
        [] \<Rightarrow> Inl JSONDecodeError
      | c # cs \<Rightarrow>
          if c = CHR 0x22 then
            (case scanstring [] cs of
               Inl e \<Rightarrow> Inl e
             | Inr r \<Rightarrow> Inr (JStr (fst r), snd r))
          else if c = CHR ''{'' then
            (case skip_ws cs of
               [] \<Rightarrow> Inl JSONDecodeError
             | d # ds \<Rightarrow> if d = CHR ''}'' then Inr (JObj [], ds) else scan_object n [] (d # ds))
          else if c = CHR ''['' then
            (case skip_ws cs of
               [] \<Rightarrow> Inl JSONDecodeError
             | d # ds \<Rightarrow> if d = CHR '']'' then Inr (JArr [], ds) else scan_array n [] (d # ds))
          else if prefix ''null'' s then Inr (JNull, drop 4 s)
          else if prefix ''true'' s then Inr (JBool True, drop 4 s)
          else if prefix ''false'' s then Inr (JBool False, drop 5 s)
          else
            (case match_number s of
               Some r \<Rightarrow> r
             | None \<Rightarrow>
                 if prefix ''NaN'' s \<or> prefix ''Infinity'' s \<or> prefix ''-Infinity'' s
                 then Inl OtherException
                 else Inl JSONDecodeError))"
| "scan_array 0 acc s = Inl OtherException"
| "scan_array (Suc n) acc s =
     (case scan_once n s of
        Inl e \<Rightarrow> Inl e
      | Inr r \<Rightarrow>
          (case skip_ws (snd r) of
             [] \<Rightarrow> Inl JSONDecodeError
           | c # cs \<Rightarrow>
               if c = CHR '']'' then Inr (JArr (acc @ [fst r]), cs)
               else if c = CHR '','' then scan_array n (acc @ [fst r]) (skip_ws cs)
               else Inl JSONDecodeError))"
| "scan_object 0 acc s = Inl OtherException"
| "scan_object (Suc n) acc s =
     (case s of
        [] \<Rightarrow> Inl JSONDecodeError
      | q # qs \<Rightarrow>
          if q \<noteq> CHR 0x22 then Inl JSONDecodeError
          else
            (case scanstring [] qs of
               Inl e \<Rightarrow> Inl e
             | Inr k \<Rightarrow>
                 (case skip_ws (snd k) of
                    [] \<Rightarrow> Inl JSONDecodeError
                  | c # cs \<Rightarrow>
                      if c \<noteq> CHR '':'' then Inl JSONDecodeError
                      else
                        (case scan_once n (skip_ws cs) of
                           Inl e \<Rightarrow> Inl e
                         | Inr r \<Rightarrow>
                             (case skip_ws (snd r) of
                                [] \<Rightarrow> Inl JSONDecodeError
                              | d # ds \<Rightarrow>
                                  if d = CHR ''}'' then
                                    Inr (JObj (AList.update (fst k) (fst r) acc), ds)
                                  else if d = CHR '','' then
                                    scan_object n (AList.update (fst k) (fst r) acc) (skip_ws ds)
                                  else Inl JSONDecodeError)))))"

text \<open>\<^verbatim>\<open>JSONDecoder().raw_decode(s)\<close>: the value at the start of \<open>s\<close> and where it ends.\<close>

definition ref_raw_decode :: "string \<Rightarrow> exn + json \<times> nat" where
  "ref_raw_decode s =
     (if \<exists>c \<in> set s. 127 < (of_char c :: nat) then Inl OtherException
      else case scan_once (Suc (length s)) s of
             Inl e \<Rightarrow> Inl e
           | Inr r \<Rightarrow> Inr (fst r, length s - length (snd r)))"

text \<open>
  \<^verbatim>\<open>json.loads(s)\<close>: whitespace may stand before and after the value, nothing else.
\<close>

definition ref_json_loads :: "string \<Rightarrow> exn + json" where
  "ref_json_loads s =
     (case ref_raw_decode (skip_ws s) of
        Inl e \<Rightarrow> Inl e
      | Inr r \<Rightarrow>
          if skip_ws (drop (snd r) (skip_ws s)) = [] then Inr (fst r) else Inl JSONDecodeError)"


section \<open>Properties\<close>

subsection \<open>Session validity\<close>

lemma u_is_session_valid_sent:
  "sent (snd (u_is_session_valid net s)) =
     sent s @ [mk_request ''get'' (u_AUTHORITY @ u_ORDER_LIST_URL)]"
  by (simp add: u_is_session_valid_def session_request_def handle_exception_def
      split: prod.splits sum.splits exn.splits option.splits)

lemma u_is_session_valid_False_iff:
  "fst (u_is_session_valid net s) = False \<longleftrightarrow>
     fst (net (mk_request ''get'' (u_AUTHORITY @ u_ORDER_LIST_URL)) (remote s))
       = Inl (ClientResponseError 401)"
  by (auto simp add: u_is_session_valid_def session_request_def handle_exception_def
      split: prod.splits sum.splits exn.splits option.splits)

text \<open>
  C7. The probe sends one GET of the order list and answers \<open>False\<close> exactly for a
  ClientResponseError of status 401 (the two lemmas above). The claim goes on: every
  other error is surfaced, not turned into a boolean. The code does not do that: when
  the request fails with status 500, the \<^verbatim>\<open>raise\<close> of line 82 is caught by
  \<^verbatim>\<open>handle_exception\<close>, which logs and does not raise again, and the probe returns
  \<open>True\<close>.
\<close>

theorem is_session_valid_status_500_is_True:
  "fst (u_is_session_valid scripted (new_client [Inl (ClientResponseError 500)])) = True"
  by (simp add: u_is_session_valid_def session_request_def handle_exception_def
      scripted_def new_client_def)

subsection \<open>Download workflow\<close>

lemma u_request_sent:
  "sent (snd (u_request net rq s)) = sent s @ [rq\<lparr>req_url := u_AUTHORITY @ req_url rq\<rparr>]"
  by (simp add: u_request_def session_request_def split: prod.splits)

lemma sign_download_sent:
  "sent (snd (sign_download net mn filename s)) =
     sent s @ [(sign_request mn filename)\<lparr>req_url := u_AUTHORITY @ u_DOWNLOAD_SIGN\<rparr>]"
  by (simp add: sign_download_def split_beta u_request_sent sign_request_def mk_request_def)

lemma u_reedem_download_sent:
  "\<exists>rq. sent (snd (u_reedem_download net dmn custom s)) = sent s @ [rq]"
  by (simp add: u_reedem_download_def Let_def split_beta u_request_sent split: sum.splits)

lemma u_reedem_download_unexpected_body:
  assumes "u_request net
             ((mk_request ''post'' u_HUMBLER_REDEEM_DOWNLOAD)
                \<lparr>req_params := dict_update [(''download'', dmn), (''download_page'', ''false'')] custom\<rparr>) s
           = (Some r, s1)"
    and "resp_read r = Inr content" and "content \<noteq> ''{'success': True}''"
  shows "u_reedem_download net dmn custom s = (Inl UnknownBackendResponse, s1)"
  using assms by (simp add: u_reedem_download_def await_read_def)

text \<open>
  C3, as the claim states it, fails for an empty web link: \<^verbatim>\<open>download.web is None\<close> is
  the only guard, and the empty string is not \<open>None\<close>. With \<^verbatim>\<open>web = ''\<close> the call
  goes to the sign endpoint and to the redeem endpoint, and returns the signed URLs.
\<close>

theorem sign_url_trove_empty_web_link_goes_to_network:
  "fst (sign_url_trove scripted \<lparr>web = Some [], machine_name = ''m''\<rparr> ''p''
          (new_client [Inr (ok_json (JObj [])), Inr (ok_body ''{'success': True}'')]))
     = Inr (JObj [])
   \<and> length (sent (snd (sign_url_trove scripted \<lparr>web = Some [], machine_name = ''m''\<rparr> ''p''
          (new_client [Inr (ok_json (JObj [])), Inr (ok_body ''{'success': True}'')])))) = 2"
  by (simp add: sign_url_trove_def sign_download_def u_reedem_download_def u_request_def
      session_request_def handle_exception_def scripted_def new_client_def ok_json_def
      ok_body_def await_json_def await_read_def Let_def)

text \<open>
  C3, amended. When the web link of the download record is absent (\<open>None\<close>), both
  \<^verbatim>\<open>sign_url_subproduct\<close> and \<^verbatim>\<open>sign_url_trove\<close> fail with the RuntimeError of
  the guard, and the session is the one they started from: no request was issued and
  the remote service was not touched.
\<close>

theorem sign_url_requires_web_link:
  assumes "web download = None"
  shows "sign_url_subproduct net u_filename_from_web_link download dmn s = (Inl RuntimeError, s)
       \<and> sign_url_trove net download pmn s = (Inl RuntimeError, s)"
  using assms by (simp add: sign_url_subproduct_def sign_url_trove_def)

theorem sign_url_requires_web_link_witness:
  "web \<lparr>web = None, machine_name = ''m''\<rparr> = None
   \<and> sign_url_subproduct scripted Inr \<lparr>web = None, machine_name = ''m''\<rparr> ''d''
        (new_client [Inr (ok_json JNull)])
       = (Inl RuntimeError, new_client [Inr (ok_json JNull)])
   \<and> sign_url_trove scripted \<lparr>web = None, machine_name = ''m''\<rparr> ''p''
        (new_client [Inr (ok_json JNull)])
       = (Inl RuntimeError, new_client [Inr (ok_json JNull)])"
  using sign_url_requires_web_link
          [of "\<lparr>web = None, machine_name = ''m''\<rparr>" scripted Inr "''d''"
              "new_client [Inr (ok_json JNull)]" "''p''"]
  by simp

text \<open>
  C5. When the sign call has returned the map \<open>urls\<close>, each of the two operations
  returns \<open>urls\<close>, whatever the redeem call does (a request that raised, a body that
  cannot be read, a body that is not the success marker): the redeem call is made in
  the session the sign call left, and its outcome is dropped.
\<close>

theorem redeem_failure_is_suppressed:
  "(web download = Some w \<and> u_filename_from_web_link w = Inr filename
      \<and> sign_download net dmn filename s = (Inr urls, s1)
    \<longrightarrow> sign_url_subproduct net u_filename_from_web_link download dmn s
          = (Inr urls, snd (u_reedem_download net dmn [(''download_url_file'', filename)] s1)))
   \<and> (web download = Some w
      \<and> sign_download net (machine_name download) w s = (Inr urls, s1)
    \<longrightarrow> sign_url_trove net download pmn s
          = (Inr urls, snd (u_reedem_download net (machine_name download) [(''product'', pmn)] s1)))"
  by (auto simp add: sign_url_subproduct_def sign_url_trove_def split: prod.splits sum.splits)

theorem redeem_failure_is_suppressed_witness:
  "fst (u_reedem_download scripted ''m'' [(''product'', ''p'')]
          (snd (sign_download scripted ''m'' ''f.zip''
                  (new_client [Inr (ok_json (JObj [(''signed_url'', JStr ''u'')])),
                               Inr (ok_body ''no'')]))))
     = Inl UnknownBackendResponse
   \<and> fst (sign_url_subproduct scripted Inr \<lparr>web = Some ''f.zip'', machine_name = ''m''\<rparr> ''m''
          (new_client [Inr (ok_json (JObj [(''signed_url'', JStr ''u'')])),
                       Inr (ok_body ''no'')]))
     = Inr (JObj [(''signed_url'', JStr ''u'')])
   \<and> fst (sign_url_trove scripted \<lparr>web = Some ''f.zip'', machine_name = ''m''\<rparr> ''p''
          (new_client [Inr (ok_json (JObj [(''signed_url'', JStr ''u'')])),
                       Inr (ok_body ''no'')]))
     = Inr (JObj [(''signed_url'', JStr ''u'')])"
proof -
  let ?s = "new_client [Inr (ok_json (JObj [(''signed_url'', JStr ''u'')])), Inr (ok_body ''no'')]"
  let ?d = "\<lparr>web = Some ''f.zip'', machine_name = ''m''\<rparr>"
  let ?urls = "JObj [(''signed_url'', JStr ''u'')]"
  have sign: "sign_download scripted ''m'' ''f.zip'' ?s
                = (Inr ?urls, snd (sign_download scripted ''m'' ''f.zip'' ?s))"
    by (simp add: sign_download_def u_request_def session_request_def handle_exception_def
        scripted_def new_client_def ok_json_def await_json_def)
  have redeem: "fst (u_reedem_download scripted ''m'' [(''product'', ''p'')]
                       (snd (sign_download scripted ''m'' ''f.zip'' ?s)))
                  = Inl UnknownBackendResponse"
    by (simp add: sign_download_def u_reedem_download_def u_request_def session_request_def
        handle_exception_def scripted_def new_client_def ok_json_def ok_body_def await_json_def
        await_read_def Let_def)
  from redeem_failure_is_suppressed
         [of ?d "''f.zip''" Inr "''f.zip''" scripted "''m''" ?s ?urls
             "snd (sign_download scripted ''m'' ''f.zip'' ?s)" "''p''"]
       sign redeem
  show ?thesis by simp
qed

lemma sign_request_on_the_wire:
  "(sign_request mn filename)\<lparr>req_url := u_AUTHORITY @ u_DOWNLOAD_SIGN\<rparr> =
     \<lparr>req_method = ''post'',
      req_url = ''https://www.humblebundle.com/api/v1/user/download/sign'',
      req_params = [(''machine_name'', mn), (''filename'', filename)],
      req_raise_for_status = None, req_allow_redirects = None\<rparr>"
  by (simp add: sign_request_def mk_request_def u_AUTHORITY_def u_DOWNLOAD_SIGN_def)

lemma u_reedem_download_trove_sent:
  "sent (snd (u_reedem_download net dmn [(''product'', pmn)] s)) =
     sent s @
     [\<lparr>req_method = ''post'',
       req_url = ''https://www.humblebundle.com/humbler/redeemdownload'',
       req_params = [(''download'', dmn), (''download_page'', ''false''), (''product'', pmn)],
       req_raise_for_status = None, req_allow_redirects = None\<rparr>]"
  by (simp add: u_reedem_download_def Let_def split_beta u_request_sent dict_update_def
      mk_request_def u_AUTHORITY_def u_HUMBLER_REDEEM_DOWNLOAD_def split: sum.splits)

text \<open>
  C10. With a web link present, \<^verbatim>\<open>sign_url_trove\<close> returns (or raises) what
  \<^verbatim>\<open>sign_download(download.machine_name, download.web)\<close> returns (or raises) in the
  same session. The request it sends first is the POST to the sign endpoint whose
  parameters are \<^verbatim>\<open>machine_name\<close>, the record's own machine name, and
  \<^verbatim>\<open>filename\<close>, the record's web link. When the sign call has returned, the only
  other request is the POST to the redeem endpoint, with \<^verbatim>\<open>download\<close> the record's
  machine name and \<^verbatim>\<open>product\<close> the argument \<^verbatim>\<open>product_machine_name\<close>; when it
  has raised, there is no other request. The result is the same for every
  \<^verbatim>\<open>product_machine_name\<close>.
\<close>

theorem sign_url_trove_signs_own_machine_name:
  assumes "web download = Some w"
  shows "fst (sign_url_trove net download pmn s)
           = fst (sign_download net (machine_name download) w s)
       \<and> take (Suc (length (sent s))) (sent (snd (sign_url_trove net download pmn s)))
           = sent s @
             [\<lparr>req_method = ''post'',
               req_url = ''https://www.humblebundle.com/api/v1/user/download/sign'',
               req_params = [(''machine_name'', machine_name download), (''filename'', w)],
               req_raise_for_status = None, req_allow_redirects = None\<rparr>]
       \<and> drop (Suc (length (sent s))) (sent (snd (sign_url_trove net download pmn s)))
           = (case fst (sign_download net (machine_name download) w s) of
                Inl e \<Rightarrow> []
              | Inr urls \<Rightarrow>
                  [\<lparr>req_method = ''post'',
                    req_url = ''https://www.humblebundle.com/humbler/redeemdownload'',
                    req_params = [(''download'', machine_name download),
                                  (''download_page'', ''false''), (''product'', pmn)],
                    req_raise_for_status = None, req_allow_redirects = None\<rparr>])
       \<and> fst (sign_url_trove net download pmn s) = fst (sign_url_trove net download pmn' s)"
proof -
  let ?sign = "\<lparr>req_method = ''post'',
               req_url = ''https://www.humblebundle.com/api/v1/user/download/sign'',
               req_params = [(''machine_name'', machine_name download), (''filename'', w)],
               req_raise_for_status = None, req_allow_redirects = None\<rparr>"
  let ?redeem = "\<lparr>req_method = ''post'',
                    req_url = ''https://www.humblebundle.com/humbler/redeemdownload'',
                    req_params = [(''download'', machine_name download),
                                  (''download_page'', ''false''), (''product'', pmn)],
                    req_raise_for_status = None, req_allow_redirects = None\<rparr>"
  obtain r s1 where sd: "sign_download net (machine_name download) w s = (r, s1)"
    by (cases "sign_download net (machine_name download) w s")
  have s1: "sent s1 = sent s @ [?sign]"
    using sign_download_sent [of net "machine_name download" w s] sd
    by (simp add: sign_request_on_the_wire)
  have res: "\<And>p. fst (sign_url_trove net download p s) = r"
    using assms sd by (simp add: sign_url_trove_def split: prod.splits sum.splits)
  have log: "sent (snd (sign_url_trove net download pmn s))
               = sent s @ ?sign # (case r of Inl e \<Rightarrow> [] | Inr urls \<Rightarrow> [?redeem])"
  proof (cases r)
    case (Inl e)
    then show ?thesis using assms sd s1 by (simp add: sign_url_trove_def)
  next
    case (Inr urls)
    have "snd (sign_url_trove net download pmn s)
            = snd (u_reedem_download net (machine_name download) [(''product'', pmn)] s1)"
      using Inr assms sd by (simp add: sign_url_trove_def split_beta split: sum.splits)
    then show ?thesis
      using Inr s1 u_reedem_download_trove_sent [of net "machine_name download" pmn s1] by simp
  qed
  have "take (Suc (length (sent s))) (sent (snd (sign_url_trove net download pmn s)))
          = sent s @ [?sign]"
    unfolding log by simp
  moreover have "drop (Suc (length (sent s))) (sent (snd (sign_url_trove net download pmn s)))
          = (case r of Inl e \<Rightarrow> [] | Inr urls \<Rightarrow> [?redeem])"
    unfolding log by simp
  ultimately show ?thesis using res sd by simp
qed

theorem sign_url_trove_signs_own_machine_name_witness:
  "fst (sign_url_trove scripted \<lparr>web = Some ''game.zip'', machine_name = ''game_windows''\<rparr> ''trove''
          (new_client [Inr (ok_json (JObj [(''signed_url'', JStr ''u'')]))]))
     = Inr (JObj [(''signed_url'', JStr ''u'')])
   \<and> sent (snd (sign_url_trove scripted
          \<lparr>web = Some ''game.zip'', machine_name = ''game_windows''\<rparr> ''trove''
          (new_client [Inr (ok_json (JObj [(''signed_url'', JStr ''u'')]))])))
     = [\<lparr>req_method = ''post'',
         req_url = ''https://www.humblebundle.com/api/v1/user/download/sign'',
         req_params = [(''machine_name'', ''game_windows''), (''filename'', ''game.zip'')],
         req_raise_for_status = None, req_allow_redirects = None\<rparr>,
        \<lparr>req_method = ''post'',
         req_url = ''https://www.humblebundle.com/humbler/redeemdownload'',
         req_params = [(''download'', ''game_windows''), (''download_page'', ''false''),
                       (''product'', ''trove'')],
         req_raise_for_status = None, req_allow_redirects = None\<rparr>]"
proof -
  let ?s = "new_client [Inr (ok_json (JObj [(''signed_url'', JStr ''u'')]))]
              :: (exn + response) list session"
  let ?d = "\<lparr>web = Some ''game.zip'', machine_name = ''game_windows''\<rparr>"
  let ?X = "sent (snd (sign_url_trove scripted ?d ''trove'' ?s))"
  have w: "web ?d = Some ''game.zip''" by simp
  have m: "machine_name ?d = ''game_windows''" by simp
  have s0: "length (sent ?s) = 0" by (simp add: new_client_def)
  have sign: "fst (sign_download scripted ''game_windows'' ''game.zip'' ?s)
                = Inr (JObj [(''signed_url'', JStr ''u'')])"
    by (simp add: sign_download_def u_request_def session_request_def handle_exception_def
        scripted_def new_client_def ok_json_def await_json_def)
  note t = sign_url_trove_signs_own_machine_name [OF w, of scripted "''trove''" ?s "''trove''"]
  from t have a: "fst (sign_url_trove scripted ?d ''trove'' ?s)
             = fst (sign_download scripted (machine_name ?d) ''game.zip'' ?s)"
    by (rule conjunct1)
  from a sign have a': "fst (sign_url_trove scripted ?d ''trove'' ?s)
             = Inr (JObj [(''signed_url'', JStr ''u'')])"
    unfolding m by (rule trans)
  from t have b: "take (Suc (length (sent ?s))) ?X
             = sent ?s @
               [\<lparr>req_method = ''post'',
                 req_url = ''https://www.humblebundle.com/api/v1/user/download/sign'',
                 req_params = [(''machine_name'', machine_name ?d), (''filename'', ''game.zip'')],
                 req_raise_for_status = None, req_allow_redirects = None\<rparr>]"
    by blast
  from t have c: "drop (Suc (length (sent ?s))) ?X
             = (case fst (sign_download scripted (machine_name ?d) ''game.zip'' ?s) of
                  Inl e \<Rightarrow> []
                | Inr urls \<Rightarrow>
                    [\<lparr>req_method = ''post'',
                      req_url = ''https://www.humblebundle.com/humbler/redeemdownload'',
                      req_params = [(''download'', machine_name ?d),
                                    (''download_page'', ''false''), (''product'', ''trove'')],
                      req_raise_for_status = None, req_allow_redirects = None\<rparr>])"
    by blast
  have "?X = take (Suc (length (sent ?s))) ?X @ drop (Suc (length (sent ?s))) ?X"
    by (simp only: append_take_drop_id)
  also have "\<dots> = [\<lparr>req_method = ''post'',
         req_url = ''https://www.humblebundle.com/api/v1/user/download/sign'',
         req_params = [(''machine_name'', ''game_windows''), (''filename'', ''game.zip'')],
         req_raise_for_status = None, req_allow_redirects = None\<rparr>,
        \<lparr>req_method = ''post'',
         req_url = ''https://www.humblebundle.com/humbler/redeemdownload'',
         req_params = [(''download'', ''game_windows''), (''download_page'', ''false''),
                       (''product'', ''trove'')],
         req_raise_for_status = None, req_allow_redirects = None\<rparr>]"
    unfolding b c m sign by (simp add: new_client_def)
  finally have x: "?X = [\<lparr>req_method = ''post'',
         req_url = ''https://www.humblebundle.com/api/v1/user/download/sign'',
         req_params = [(''machine_name'', ''game_windows''), (''filename'', ''game.zip'')],
         req_raise_for_status = None, req_allow_redirects = None\<rparr>,
        \<lparr>req_method = ''post'',
         req_url = ''https://www.humblebundle.com/humbler/redeemdownload'',
         req_params = [(''download'', ''game_windows''), (''download_page'', ''false''),
                       (''product'', ''trove'')],
         req_raise_for_status = None, req_allow_redirects = None\<rparr>]" .
  from a' x show ?thesis by (rule conjI)
qed

subsection \<open>Pagination generators\<close>

lemma drive_LReturn:
  "body c w = (LReturn, w1) \<Longrightarrow> drive body c w = Some (([], Returned), w1)"
  by (subst drive.simps) simp

lemma drive_LRaise:
  "body c w = (LRaise ys e, w1) \<Longrightarrow> drive body c w = Some ((ys, Raised e), w1)"
  by (subst drive.simps) simp

lemma drive_LNext:
  "body c w = (LNext ys c', w1) \<Longrightarrow>
   drive body c w
     = Option.bind (drive body c' w1) (\<lambda>r. Some ((ys @ fst (fst r), snd (fst r)), snd r))"
  by (subst drive.simps) simp

lemma u_request_reply:
  "net (wire rq) (remote s) = (r, st1) \<Longrightarrow>
   u_request net rq s = (handle_exception r, s\<lparr>sent := sent s @ [wire rq], remote := st1\<rparr>)"
  by (simp add: u_request_def session_request_def wire_def)

lemma map_upt_shift:
  "map f [0..<Suc n] = f 0 # map (\<lambda>k. f (Suc k)) [0..<n]"
  by (simp add: map_upt_Suc del: upt_Suc)

lemma trove_pass_chunk:
  assumes "net (wire (trove_request i)) (remote s) = (Inr r, st1)"
    and "resp_json r = Inr (JArr xs)"
  shows "trove_pass net i s =
           (if xs = [] then LReturn else LNext [JArr xs] (i + 1),
            s\<lparr>sent := sent s @ [wire (trove_request i)], remote := st1\<rparr>)"
  using assms
  by (simp add: trove_pass_def u_get_trove_details_def u_request_reply handle_exception_def
      await_json_def)

lemma drive_trove_chunks:
  assumes "\<forall>p \<in> set pages. is_trove_chunk p"
    and "resp_json r_end = Inr (JArr [])"
    and "serves net (remote s)
           (zip (map (\<lambda>k. wire (trove_request (i + int k))) [0..<Suc (length pages)])
                (map (\<lambda>p. Inr (fst p)) pages @ [Inr r_end])) st'"
  shows "drive (trove_pass net) i s =
           Some ((map (\<lambda>p. JArr (snd p)) pages, Returned),
                 s\<lparr>sent := sent s @ map (\<lambda>k. wire (trove_request (i + int k))) [0..<Suc (length pages)],
                   remote := st'\<rparr>)"
  using assms
proof (induction pages arbitrary: i s)
  case Nil
  from Nil.prems(3) have "net (wire (trove_request i)) (remote s) = (Inr r_end, st')"
    by (auto split: prod.splits)
  from trove_pass_chunk [where net = net, OF this Nil.prems(2)]
  have "trove_pass net i s = (LReturn, s\<lparr>sent := sent s @ [wire (trove_request i)], remote := st'\<rparr>)"
    by simp
  from drive_LReturn [where body = "trove_pass net", OF this] show ?case by simp
next
  case (Cons p ps)
  let ?reqs = "\<lambda>j n. map (\<lambda>k. wire (trove_request (j + int k))) [0..<n]"
  have shift: "?reqs i (Suc (Suc (length ps))) = wire (trove_request i) # ?reqs (i + 1) (Suc (length ps))"
    by (subst map_upt_shift) (simp add: algebra_simps del: upt_Suc)
  from Cons.prems(3) obtain st1 where
    first: "net (wire (trove_request i)) (remote s) = (Inr (fst p), st1)" and
    rest: "serves net st1 (zip (?reqs (i + 1) (Suc (length ps))) (map (\<lambda>p. Inr (fst p)) ps @ [Inr r_end])) st'"
    unfolding length_Cons shift by (auto split: prod.splits)
  let ?s1 = "s\<lparr>sent := sent s @ [wire (trove_request i)], remote := st1\<rparr>"
  from Cons.prems(1) have chunk: "resp_json (fst p) = Inr (JArr (snd p))" "snd p \<noteq> []"
    by (simp_all add: is_trove_chunk_def)
  from trove_pass_chunk [where net = net, OF first chunk(1)] chunk(2)
  have pass: "trove_pass net i s = (LNext [JArr (snd p)] (i + 1), ?s1)"
    by simp
  have "drive (trove_pass net) (i + 1) ?s1 =
          Some ((map (\<lambda>p. JArr (snd p)) ps, Returned),
                ?s1\<lparr>sent := sent ?s1 @ ?reqs (i + 1) (Suc (length ps)), remote := st'\<rparr>)"
    using Cons.prems(1) Cons.prems(2) rest by (intro Cons.IH) simp_all
  then show ?case
    unfolding length_Cons shift by (simp add: drive_LNext [where body = "trove_pass net", OF pass])
qed

text \<open>
  C1, as the claim states it, fails: with chunk 0 \<open>[a, b]\<close> and chunk 1 \<open>[]\<close> the
  generator yields one item, the list \<open>[a, b]\<close> (\<^verbatim>\<open>yield chunk_details\<close>), not the
  two items \<open>a\<close> and \<open>b\<close>.
\<close>

theorem get_trove_details_yields_the_chunk:
  "map_option (fst \<circ> fst)
     (get_trove_details scripted 0
        (new_client [Inr (ok_json (JArr [JStr ''a'', JStr ''b''])), Inr (ok_json (JArr []))]))
     = Some [JArr [JStr ''a'', JStr ''b'']]
   \<and> map_option (fst \<circ> fst)
     (get_trove_details scripted 0
        (new_client [Inr (ok_json (JArr [JStr ''a'', JStr ''b''])), Inr (ok_json (JArr []))]))
     \<noteq> Some [JStr ''a'', JStr ''b'']"
proof -
  let ?s = "new_client [Inr (ok_json (JArr [JStr ''a'', JStr ''b''])), Inr (ok_json (JArr []))]
              :: (exn + response) list session"
  have "drive (trove_pass scripted) 0 ?s =
          Some ((map (\<lambda>p. JArr (snd p)) [(ok_json (JArr [JStr ''a'', JStr ''b'']), [JStr ''a'', JStr ''b''])],
                 Returned),
                ?s\<lparr>sent := sent ?s @ map (\<lambda>k. wire (trove_request (0 + int k)))
                                       [0..<Suc (length [(ok_json (JArr [JStr ''a'', JStr ''b'']), [JStr ''a'', JStr ''b''])])],
                   remote := []\<rparr>)"
    by (rule drive_trove_chunks [where r_end = "ok_json (JArr [])"])
      (simp_all add: is_trove_chunk_def ok_json_def scripted_def new_client_def)
  then show ?thesis by (simp add: get_trove_details_def)
qed

text \<open>
  C1, amended. The generator yields each fetched non-empty array as one item. When the
  service answers the requests for the chunks \<open>from_chunk\<close>, \<open>from_chunk + 1\<close>, ... with
  non-empty arrays and then with the empty array, the generator yields these arrays,
  in this order, and returns; the requests it has sent are those for the successive
  indices, one more than the chunks it yielded. One pass of its loop returns exactly
  when the fetched value is the empty array. The request for an index is the GET of
  the chunk URL that ends in \<^verbatim>\<open>index=\<close> and the decimal text of the index.
\<close>

theorem get_trove_details_pagination:
  "((\<forall>p \<in> set pages. is_trove_chunk p) \<and> resp_json r_end = Inr (JArr [])
      \<and> serves net (remote s)
           (zip (map (\<lambda>k. wire (trove_request (from_chunk + int k))) [0..<Suc (length pages)])
                (map (\<lambda>p. Inr (fst p)) pages @ [Inr r_end])) st'
    \<longrightarrow> get_trove_details net from_chunk s =
          Some ((map (\<lambda>p. JArr (snd p)) pages, Returned),
                s\<lparr>sent := sent s @ map (\<lambda>k. wire (trove_request (from_chunk + int k)))
                                      [0..<Suc (length pages)],
                  remote := st'\<rparr>))
   \<and> (fst (trove_pass net index s) = LReturn
        \<longleftrightarrow> fst (u_get_trove_details net index s) = Inr (JArr []))
   \<and> wire (trove_request index) =
       \<lparr>req_method = ''get'',
        req_url = ''https://www.humblebundle.com/api/v1/trove/chunk?property=popularity&direction=desc&index=''
                  @ str_int index,
        req_params = [], req_raise_for_status = None, req_allow_redirects = None\<rparr>"
proof (intro conjI impI)
  assume "(\<forall>p \<in> set pages. is_trove_chunk p) \<and> resp_json r_end = Inr (JArr [])
      \<and> serves net (remote s)
           (zip (map (\<lambda>k. wire (trove_request (from_chunk + int k))) [0..<Suc (length pages)])
                (map (\<lambda>p. Inr (fst p)) pages @ [Inr r_end])) st'"
  then show "get_trove_details net from_chunk s =
          Some ((map (\<lambda>p. JArr (snd p)) pages, Returned),
                s\<lparr>sent := sent s @ map (\<lambda>k. wire (trove_request (from_chunk + int k)))
                                      [0..<Suc (length pages)],
                  remote := st'\<rparr>)"
    unfolding get_trove_details_def by (intro drive_trove_chunks) blast+
next
  show "fst (trove_pass net index s) = LReturn
        \<longleftrightarrow> fst (u_get_trove_details net index s) = Inr (JArr [])"
    by (auto simp add: trove_pass_def split: prod.splits sum.splits json.splits if_splits)
next
  show "wire (trove_request index) =
       \<lparr>req_method = ''get'',
        req_url = ''https://www.humblebundle.com/api/v1/trove/chunk?property=popularity&direction=desc&index=''
                  @ str_int index,
        req_params = [], req_raise_for_status = None, req_allow_redirects = None\<rparr>"
    by (simp add: wire_def trove_request_def mk_request_def u_AUTHORITY_def u_TROVE_CHUNK_URL_def)
qed

theorem get_trove_details_pagination_witness:
  "map_option fst
     (get_trove_details scripted 3
        (new_client [Inr (ok_json (JArr [JStr ''a'', JStr ''b''])),
                     Inr (ok_json (JArr [JStr ''c''])),
                     Inr (ok_json (JArr []))]))
     = Some ([JArr [JStr ''a'', JStr ''b''], JArr [JStr ''c'']], Returned)"
  using get_trove_details_pagination
    [of "[(ok_json (JArr [JStr ''a'', JStr ''b'']), [JStr ''a'', JStr ''b'']),
          (ok_json (JArr [JStr ''c'']), [JStr ''c''])]"
        "ok_json (JArr [])" scripted
        "new_client [Inr (ok_json (JArr [JStr ''a'', JStr ''b''])),
                     Inr (ok_json (JArr [JStr ''c''])),
                     Inr (ok_json (JArr []))]"
        3 "[]"]
  by (simp add: is_trove_chunk_def ok_json_def scripted_def new_client_def)

lemma products_pass_page:
  assumes "net (wire (products_request repr c)) (remote s) = (Inr r, st1)"
    and "is_products_page (r, ps, c')"
  shows "products_pass net repr c s =
           (LNext ps c', s\<lparr>sent := sent s @ [wire (products_request repr c)], remote := st1\<rparr>)"
  using assms
  by (auto simp add: products_pass_def u_request_reply handle_exception_def is_products_page_def
      split: sum.splits)

lemma products_pass_404:
  assumes "net (wire (products_request repr c)) (remote s) = (Inr r, st1)"
    and "resp_status r = 404"
  shows "products_pass net repr c s =
           (LReturn, s\<lparr>sent := sent s @ [wire (products_request repr c)], remote := st1\<rparr>)"
  using assms by (simp add: products_pass_def u_request_reply handle_exception_def)

lemma drive_products_pages:
  assumes "\<forall>p \<in> set pages. is_products_page p"
    and "resp_status r_end = 404"
    and "serves net (remote s)
           (zip (map (\<lambda>c. wire (products_request repr c)) (c0 # map (\<lambda>p. snd (snd p)) pages))
                (map (\<lambda>p. Inr (fst p)) pages @ [Inr r_end])) st'"
  shows "drive (products_pass net repr) c0 s =
           Some ((concat (map (\<lambda>p. fst (snd p)) pages), Returned),
                 s\<lparr>sent := sent s @ map (\<lambda>c. wire (products_request repr c))
                                       (c0 # map (\<lambda>p. snd (snd p)) pages),
                   remote := st'\<rparr>)"
  using assms
proof (induction pages arbitrary: c0 s)
  case Nil
  from Nil.prems(3) have "net (wire (products_request repr c0)) (remote s) = (Inr r_end, st')"
    by (auto split: prod.splits)
  from products_pass_404 [where net = net, OF this Nil.prems(2)]
  have "products_pass net repr c0 s =
          (LReturn, s\<lparr>sent := sent s @ [wire (products_request repr c0)], remote := st'\<rparr>)" .
  from drive_LReturn [where body = "products_pass net repr", OF this] show ?case by simp
next
  case (Cons p ps)
  obtain r items c1 where p: "p = (r, items, c1)" by (cases p)
  from Cons.prems(3) obtain st1 where
    first: "net (wire (products_request repr c0)) (remote s) = (Inr r, st1)" and
    rest: "serves net st1
             (zip (map (\<lambda>c. wire (products_request repr c)) (c1 # map (\<lambda>p. snd (snd p)) ps))
                  (map (\<lambda>p. Inr (fst p)) ps @ [Inr r_end])) st'"
    unfolding p by (auto split: prod.splits)
  let ?s1 = "s\<lparr>sent := sent s @ [wire (products_request repr c0)], remote := st1\<rparr>"
  from Cons.prems(1) have "is_products_page (r, items, c1)" by (simp add: p)
  from products_pass_page [where net = net, OF first this]
  have pass: "products_pass net repr c0 s = (LNext items c1, ?s1)" .
  have "drive (products_pass net repr) c1 ?s1 =
          Some ((concat (map (\<lambda>p. fst (snd p)) ps), Returned),
                ?s1\<lparr>sent := sent ?s1 @ map (\<lambda>c. wire (products_request repr c))
                                          (c1 # map (\<lambda>p. snd (snd p)) ps),
                    remote := st'\<rparr>)"
    using Cons.prems(1) Cons.prems(2) rest by (intro Cons.IH) simp_all
  then show ?case
    by (simp add: drive_LNext [where body = "products_pass net repr", OF pass] p)
qed

text \<open>
  C2. When the service answers with pages (a status other than 404, a JSON object
  whose \<^verbatim>\<open>products\<close> is an array and that has a \<^verbatim>\<open>cursor\<close>) and then with a 404,
  the generator yields the elements of the \<^verbatim>\<open>products\<close> arrays, page after page, and
  returns. The requests it has sent are those for the empty cursor and then for the
  cursor of each page in turn, and the URL of the request for a cursor is the endpoint
  followed by a slash and the cursor.
\<close>

theorem subscription_products_pagination:
  "((\<forall>p \<in> set pages. is_products_page p) \<and> resp_status r_end = 404
      \<and> serves net (remote s)
           (zip (map (\<lambda>c. wire (products_request repr c)) (JStr [] # map (\<lambda>p. snd (snd p)) pages))
                (map (\<lambda>p. Inr (fst p)) pages @ [Inr r_end])) st'
    \<longrightarrow> get_subscription_products_with_gamekeys net repr s =
          Some ((concat (map (\<lambda>p. fst (snd p)) pages), Returned),
                s\<lparr>sent := sent s @ map (\<lambda>c. wire (products_request repr c))
                                      (JStr [] # map (\<lambda>p. snd (snd p)) pages),
                  remote := st'\<rparr>))
   \<and> wire (products_request repr (JStr cursor)) =
       \<lparr>req_method = ''GET'',
        req_url = ''https://www.humblebundle.com/api/v1/subscriptions/humble_monthly/subscription_products_with_gamekeys/'' @ cursor,
        req_params = [], req_raise_for_status = Some False, req_allow_redirects = None\<rparr>"
proof (intro conjI impI)
  assume "(\<forall>p \<in> set pages. is_products_page p) \<and> resp_status r_end = 404
      \<and> serves net (remote s)
           (zip (map (\<lambda>c. wire (products_request repr c)) (JStr [] # map (\<lambda>p. snd (snd p)) pages))
                (map (\<lambda>p. Inr (fst p)) pages @ [Inr r_end])) st'"
  then show "get_subscription_products_with_gamekeys net repr s =
          Some ((concat (map (\<lambda>p. fst (snd p)) pages), Returned),
                s\<lparr>sent := sent s @ map (\<lambda>c. wire (products_request repr c))
                                      (JStr [] # map (\<lambda>p. snd (snd p)) pages),
                  remote := st'\<rparr>)"
    unfolding get_subscription_products_with_gamekeys_def
    by (intro drive_products_pages) blast+
next
  show "wire (products_request repr (JStr cursor)) =
       \<lparr>req_method = ''GET'',
        req_url = ''https://www.humblebundle.com/api/v1/subscriptions/humble_monthly/subscription_products_with_gamekeys/'' @ cursor,
        req_params = [], req_raise_for_status = Some False, req_allow_redirects = None\<rparr>"
    by (simp add: wire_def products_request_def mk_request_def u_AUTHORITY_def
        u_SUBSCRIPTION_PRODUCTS_def)
qed

theorem subscription_products_pagination_witness:
  "map_option fst
     (get_subscription_products_with_gamekeys scripted (\<lambda>v. [])
        (new_client
           [Inr (ok_json (JObj [(''products'', JArr [JStr ''a'', JStr ''b'']), (''cursor'', JStr ''x'')])),
            Inr (ok_json (JObj [(''products'', JArr [JStr ''c'']), (''cursor'', JStr ''y'')])),
            Inr (http_status 404)]))
     = Some ([JStr ''a'', JStr ''b'', JStr ''c''], Returned)
   \<and> map req_url (sent (snd (the
     (get_subscription_products_with_gamekeys scripted (\<lambda>v. [])
        (new_client
           [Inr (ok_json (JObj [(''products'', JArr [JStr ''a'', JStr ''b'']), (''cursor'', JStr ''x'')])),
            Inr (ok_json (JObj [(''products'', JArr [JStr ''c'']), (''cursor'', JStr ''y'')])),
            Inr (http_status 404)])))))
     = [''https://www.humblebundle.com/api/v1/subscriptions/humble_monthly/subscription_products_with_gamekeys/'',
        ''https://www.humblebundle.com/api/v1/subscriptions/humble_monthly/subscription_products_with_gamekeys/x'',
        ''https://www.humblebundle.com/api/v1/subscriptions/humble_monthly/subscription_products_with_gamekeys/y'']"
  using subscription_products_pagination
    [of "[(ok_json (JObj [(''products'', JArr [JStr ''a'', JStr ''b'']), (''cursor'', JStr ''x'')]),
           [JStr ''a'', JStr ''b''], JStr ''x''),
          (ok_json (JObj [(''products'', JArr [JStr ''c'']), (''cursor'', JStr ''y'')]),
           [JStr ''c''], JStr ''y'')]"
        "http_status 404" scripted
        "new_client
           [Inr (ok_json (JObj [(''products'', JArr [JStr ''a'', JStr ''b'']), (''cursor'', JStr ''x'')])),
            Inr (ok_json (JObj [(''products'', JArr [JStr ''c'']), (''cursor'', JStr ''y'')])),
            Inr (http_status 404)]"
        "\<lambda>v. []" "[]"]
  by (simp add: is_products_page_def ok_json_def http_status_def scripted_def new_client_def
      wire_def products_request_def mk_request_def u_AUTHORITY_def u_SUBSCRIPTION_PRODUCTS_def)








subsection \<open>Webpack scraper\<close>

lemma find_from_first:
  "(\<forall>k < length pre. \<not> prefix sub (drop k (pre @ sub @ post))) \<Longrightarrow>
   find_from (pre @ sub @ post) sub i = i + int (length pre)"
proof (induction pre arbitrary: i)
  case Nil
  show ?case
  proof (cases "sub @ post")
    case Nil
    then show ?thesis by simp
  next
    case (Cons a list)
    then have "prefix sub (a # list)" by (metis prefixI)
    with Cons show ?thesis by simp
  qed
next
  case (Cons a pre)
  from Cons.prems have "\<not> prefix sub (a # pre @ sub @ post)"
    by (metis append_Cons drop0 length_greater_0_conv list.distinct(1))
  moreover have "\<forall>k < length pre. \<not> prefix sub (drop k (pre @ sub @ post))"
  proof (intro allI impI)
    fix k assume "k < length pre"
    then have "Suc k < length (a # pre)" by simp
    with Cons.prems have "\<not> prefix sub (drop (Suc k) ((a # pre) @ sub @ post))" by blast
    then show "\<not> prefix sub (drop k (pre @ sub @ post))" by simp
  qed
  ultimately show ?case using Cons.IH [of "i + 1"] by simp
qed

text \<open>
  The part of C4 that holds: when the marker occurs in the page (first after \<open>pre\<close>),
  the scraper decodes the text that follows it, stripped of surrounding whitespace;
  a JSONDecodeError becomes UnknownBackendResponse, a decoded value is returned and
  what follows it is dropped.
\<close>

lemma u_get_webpack_data_after_marker:
  assumes "net (wire ((mk_request ''GET'' path)\<lparr>req_allow_redirects := Some False\<rparr>)) (remote s)
             = (Inr r, st1)"
    and "resp_text r = Inr (pre @ script_marker webpack_id @ post)"
    and "\<forall>k < length pre. \<not> prefix (script_marker webpack_id)
                                  (drop k (pre @ script_marker webpack_id @ post))"
  shows "fst (u_get_webpack_data net raw_decode path webpack_id s) =
           (case raw_decode (py_strip post) of
              Inl e \<Rightarrow> Inl (if e = JSONDecodeError then UnknownBackendResponse else e)
            | Inr parsed \<Rightarrow> Inr (fst parsed))"
proof -
  have "py_find (pre @ script_marker webpack_id @ post) (script_marker webpack_id)
          = int (length pre)"
    using find_from_first [OF assms(3), of 0] by (simp add: py_find_def)
  then have "py_slice_from (pre @ script_marker webpack_id @ post)
               (py_find (pre @ script_marker webpack_id @ post) (script_marker webpack_id)
                + int (length (script_marker webpack_id))) = post"
    by (simp add: py_slice_from_def nat_add_distrib)
  then show ?thesis
    using assms(1,2)
    by (simp add: u_get_webpack_data_def u_request_reply handle_exception_def await_text_def
        Let_def split: sum.splits)
qed

lemma ref_raw_decode_502:
  "ref_raw_decode ''502 Bad Gateway</p></body></html>'' = Inr (JInt 502, 3)"
  by (simp add: ref_raw_decode_def match_number_def is_digit_def nat_of_digits_def
      starts_float_tail_def Let_def)

lemma hub_marker_missing:
  "py_find ''<html><head><title>Humble Bundle</title></head><body><p>Error - 502 Bad Gateway</p></body></html>''
     (script_marker ''webpack-subscriber-hub-data'') = - 1"
  by (simp add: py_find_def script_marker_def)

lemma hub_candidate:
  "py_strip (py_slice_from
     ''<html><head><title>Humble Bundle</title></head><body><p>Error - 502 Bad Gateway</p></body></html>''
     (py_find ''<html><head><title>Humble Bundle</title></head><body><p>Error - 502 Bad Gateway</p></body></html>''
        (script_marker ''webpack-subscriber-hub-data'')
      + int (length (script_marker ''webpack-subscriber-hub-data''))))
   = ''502 Bad Gateway</p></body></html>''"
  unfolding hub_marker_missing
  by (simp add: py_strip_def py_slice_from_def script_marker_def py_isspace_def)

text \<open>
  C4. The claim is right that a page without the marker must be refused, and the code
  does not do it: \<^verbatim>\<open>txt.find(search)\<close> is -1 there, \<^verbatim>\<open>json_start\<close> is the length
  of the marker less one, and whatever JSON value the page has at that index is
  returned. The page below has no marker, and \<^verbatim>\<open>get_subscriber_hub_data\<close> returns
  the number 502 that stands at index 64 of it.
\<close>

theorem webpack_missing_marker_is_not_refused:
  "py_find ''<html><head><title>Humble Bundle</title></head><body><p>Error - 502 Bad Gateway</p></body></html>''
     (script_marker ''webpack-subscriber-hub-data'') = - 1
   \<and> fst (get_subscriber_hub_data scripted ref_raw_decode
        (new_client [Inr (ok_body
           ''<html><head><title>Humble Bundle</title></head><body><p>Error - 502 Bad Gateway</p></body></html>'')]))
     = Inr (JInt 502)"
proof -
  have "fst (get_subscriber_hub_data scripted ref_raw_decode
        (new_client [Inr (ok_body
           ''<html><head><title>Humble Bundle</title></head><body><p>Error - 502 Bad Gateway</p></body></html>'')]))
     = Inr (JInt 502)"
    unfolding get_subscriber_hub_data_def u_get_webpack_data_def
    by (simp add: u_request_def session_request_def handle_exception_def scripted_def
        new_client_def ok_body_def await_text_def Let_def hub_candidate ref_raw_decode_502)
  with hub_marker_missing show ?thesis by (rule conjI)
qed

text \<open>The examples of the specification: a page with the marker, and one without it.\<close>

lemma webpack_examples:
  "fst (u_get_webpack_data scripted ref_raw_decode ''subscription'' ''webpack-x''
          (new_client [Inr (ok_body
             ''<script id=\"webpack-x\" type=\"application/json\">{\"a\":1}</script>'')]))
     = Inr (JObj [(''a'', JInt 1)])"
  "fst (u_get_webpack_data scripted ref_raw_decode ''subscription'' ''webpack-x''
          (new_client [Inr (ok_body ''<html><body>Please log in</body></html>'')]))
     = Inl UnknownBackendResponse"
  by (simp_all add: u_get_webpack_data_def u_request_def session_request_def
      handle_exception_def scripted_def new_client_def ok_body_def await_text_def Let_def
      py_find_def script_marker_def py_strip_def py_slice_from_def py_isspace_def
      ref_raw_decode_def match_number_def is_digit_def nat_of_digits_def
      starts_float_tail_def skip_ws_def json_ws_def)

subsection \<open>Authentication\<close>

lemma index_of_nth:
  "distinct xs \<Longrightarrow> i < length xs \<Longrightarrow> index_of (xs ! i) xs = Some i"
proof (induction xs arbitrary: i)
  case Nil
  then show ?case by simp
next
  case (Cons x xs)
  show ?case
  proof (cases i)
    case 0
    then show ?thesis by simp
  next
    case (Suc j)
    with Cons.prems have "xs ! j \<noteq> x" "index_of (xs ! j) xs = Some j"
      using Cons.IH [of j] by auto
    with Suc show ?thesis by auto
  qed
qed

lemma b64_alphabet_length: "length b64_alphabet = 64"
  by (simp add: b64_alphabet_def)

lemma b64_alphabet_distinct: "distinct b64_alphabet"
  by (simp add: b64_alphabet_def)

lemma b64_alphabet_chars:
  "\<forall>c \<in> set b64_alphabet. c \<noteq> CHR ''='' \<and> c \<noteq> CHR ''|'' \<and> c \<noteq> CHR 0x22 \<and> \<not> 127 < (of_char c :: nat)"
  by (simp add: b64_alphabet_def)

lemma b64_char_mem: "i < 64 \<Longrightarrow> b64_char i \<in> set b64_alphabet"
  by (simp add: b64_char_def b64_alphabet_length)

lemma b64_value_char: "i < 64 \<Longrightarrow> b64_value (b64_char i) = Some i"
  by (simp add: b64_value_def b64_char_def index_of_nth b64_alphabet_distinct b64_alphabet_length)

lemma b64_char_not_pad: "i < 64 \<Longrightarrow> b64_char i \<noteq> CHR ''=''"
  using b64_alphabet_chars b64_char_mem by blast

lemma sextet_high:
  fixes a b :: nat
  assumes "b < 256"
  shows "a div 4 * 4 + (a mod 4 * 16 + b div 16) div 16 = a"
    and "(a mod 4 * 16 + b div 16) mod 16 = b div 16"
proof -
  from assms have b: "b div 16 < 16" by simp
  then have "(a mod 4 * 16 + b div 16) div 16 = a mod 4" by simp
  then show "a div 4 * 4 + (a mod 4 * 16 + b div 16) div 16 = a" by simp
  from b show "(a mod 4 * 16 + b div 16) mod 16 = b div 16" by simp
qed

lemma sextet_low:
  fixes a b :: nat
  assumes "b < 256"
  shows "a div 16 * 16 + (a mod 16 * 4 + b div 64) div 4 = a"
    and "(a mod 16 * 4 + b div 64) mod 4 = b div 64"
proof -
  from assms have b: "b div 64 < 4" by simp
  then have "(a mod 16 * 4 + b div 64) div 4 = a mod 16" by simp
  then show "a div 16 * 16 + (a mod 16 * 4 + b div 64) div 4 = a" by simp
  from b show "(a mod 16 * 4 + b div 64) mod 4 = b div 64" by simp
qed

lemma byte_parts:
  fixes a b :: nat
  assumes "a < 256" "b < 256"
  shows "a div 4 < 64" "a mod 4 * 16 + b div 16 < 64" "a mod 16 * 4 + b div 64 < 64"
    "a mod 64 < 64" "a mod 4 * 16 < 64" "a mod 16 * 4 < 64"
    "a div 4 * 4 + (a mod 4 * 16 + b div 16) div 16 = a"
    "(a mod 4 * 16 + b div 16) mod 16 = b div 16"
    "a div 16 * 16 + (a mod 16 * 4 + b div 64) div 4 = a"
    "(a mod 16 * 4 + b div 64) mod 4 = b div 64"
    "a div 64 * 64 + a mod 64 = a"
    "a div 4 * 4 + (a mod 4 * 16) div 16 = a"
    "a div 16 * 16 + (a mod 16 * 4) div 4 = a"
proof -
  show "a div 4 < 64" "a mod 4 * 16 + b div 16 < 64" "a mod 16 * 4 + b div 64 < 64"
    "a mod 64 < 64" "a mod 4 * 16 < 64" "a mod 16 * 4 < 64"
    using assms by auto
  show "a div 4 * 4 + (a mod 4 * 16 + b div 16) div 16 = a"
    "(a mod 4 * 16 + b div 16) mod 16 = b div 16"
    by (rule sextet_high [OF assms(2)])+
  show "a div 16 * 16 + (a mod 16 * 4 + b div 64) div 4 = a"
    "(a mod 16 * 4 + b div 64) mod 4 = b div 64"
    by (rule sextet_low [OF assms(2)])+
  show "a div 64 * 64 + a mod 64 = a" "a div 4 * 4 + (a mod 4 * 16) div 16 = a"
    "a div 16 * 16 + (a mod 16 * 4) div 4 = a"
    by simp_all
qed

lemma a2b_step0:
  "i < 64 \<Longrightarrow> a2b_base64 (b64_char i # cs) 0 pads lc out = a2b_base64 cs (Suc 0) 0 i out"
  by (simp add: b64_value_char b64_char_not_pad)

lemma a2b_step1:
  "i < 64 \<Longrightarrow> a2b_base64 (b64_char i # cs) (Suc 0) pads lc out
     = a2b_base64 cs 2 0 (i mod 16) (out @ [char_of (lc * 4 + i div 16)])"
  by (simp add: b64_value_char b64_char_not_pad)

lemma a2b_step2:
  "i < 64 \<Longrightarrow> a2b_base64 (b64_char i # cs) 2 pads lc out
     = a2b_base64 cs 3 0 (i mod 4) (out @ [char_of (lc * 16 + i div 4)])"
  by (simp add: b64_value_char b64_char_not_pad)

lemma a2b_step3:
  "i < 64 \<Longrightarrow> a2b_base64 (b64_char i # cs) 3 pads lc out
     = a2b_base64 cs 0 0 0 (out @ [char_of (lc * 64 + i)])"
  by (simp add: b64_value_char b64_char_not_pad)

lemma a2b_pad_low:
  "quad_pos < 2 \<Longrightarrow>
   a2b_base64 (CHR ''='' # cs) quad_pos pads lc out = a2b_base64 cs quad_pos pads lc out"
  by simp

lemma a2b_pad_more:
  "2 \<le> quad_pos \<Longrightarrow> quad_pos + pads + 1 < 4 \<Longrightarrow>
   a2b_base64 (CHR ''='' # cs) quad_pos pads lc out = a2b_base64 cs quad_pos (pads + 1) lc out"
  by simp

lemma a2b_pad_done:
  "2 \<le> quad_pos \<Longrightarrow> 4 \<le> quad_pos + pads + 1 \<Longrightarrow>
   a2b_base64 (CHR ''='' # cs) quad_pos pads lc out = Inr out"
  by simp

lemma a2b_end: "a2b_base64 [] 0 pads lc out = Inr out"
  by simp

lemma a2b_group_nat:
  fixes x y z :: nat
  assumes x: "x < 256" and y: "y < 256" and z: "z < 256"
  shows "a2b_base64
           (b64_char (x div 4) # b64_char (x mod 4 * 16 + y div 16)
            # b64_char (y mod 16 * 4 + z div 64) # b64_char (z mod 64) # cs)
           0 pads lc out
         = a2b_base64 cs 0 0 0 (out @ [char_of x, char_of y, char_of z])"
proof -
  note xy = byte_parts [OF x y] and yz = byte_parts [OF y z] and zz = byte_parts [OF z z]
  have "a2b_base64
           (b64_char (x div 4) # b64_char (x mod 4 * 16 + y div 16)
            # b64_char (y mod 16 * 4 + z div 64) # b64_char (z mod 64) # cs)
           0 pads lc out
        = a2b_base64
           (b64_char (x mod 4 * 16 + y div 16)
            # b64_char (y mod 16 * 4 + z div 64) # b64_char (z mod 64) # cs)
           (Suc 0) 0 (x div 4) out"
    by (rule a2b_step0) (rule xy(1))
  also have "\<dots> = a2b_base64
           (b64_char (y mod 16 * 4 + z div 64) # b64_char (z mod 64) # cs)
           2 0 ((x mod 4 * 16 + y div 16) mod 16)
           (out @ [char_of (x div 4 * 4 + (x mod 4 * 16 + y div 16) div 16)])"
    by (rule a2b_step1) (rule xy(2))
  also have "\<dots> = a2b_base64
           (b64_char (y mod 16 * 4 + z div 64) # b64_char (z mod 64) # cs)
           2 0 (y div 16) (out @ [char_of x])"
    by (simp only: xy(7) xy(8))
  also have "\<dots> = a2b_base64 (b64_char (z mod 64) # cs)
           3 0 ((y mod 16 * 4 + z div 64) mod 4)
           ((out @ [char_of x]) @ [char_of (y div 16 * 16 + (y mod 16 * 4 + z div 64) div 4)])"
    by (rule a2b_step2) (rule yz(3))
  also have "\<dots> = a2b_base64 (b64_char (z mod 64) # cs)
           3 0 (z div 64) ((out @ [char_of x]) @ [char_of y])"
    by (simp only: yz(9) yz(10))
  also have "\<dots> = a2b_base64 cs 0 0 0
           (((out @ [char_of x]) @ [char_of y]) @ [char_of (z div 64 * 64 + z mod 64)])"
    by (rule a2b_step3) (rule zz(4))
  also have "\<dots> = a2b_base64 cs 0 0 0 (out @ [char_of x, char_of y, char_of z])"
    by (simp only: zz(11) append_assoc append_Cons append_Nil)
  finally show ?thesis .
qed

lemma a2b_tail1_nat:
  fixes x :: nat
  assumes x: "x < 256"
  shows "a2b_base64
           (b64_char (x div 4) # b64_char (x mod 4 * 16) # CHR ''='' # CHR ''='' # cs)
           0 pads lc out
         = Inr (out @ [char_of x])"
proof -
  note xx = byte_parts [OF x x]
  have "a2b_base64
           (b64_char (x div 4) # b64_char (x mod 4 * 16) # CHR ''='' # CHR ''='' # cs)
           0 pads lc out
        = a2b_base64 (b64_char (x mod 4 * 16) # CHR ''='' # CHR ''='' # cs) (Suc 0) 0 (x div 4) out"
    by (rule a2b_step0) (rule xx(1))
  also have "\<dots> = a2b_base64 (CHR ''='' # CHR ''='' # cs) 2 0 ((x mod 4 * 16) mod 16)
                      (out @ [char_of (x div 4 * 4 + (x mod 4 * 16) div 16)])"
    by (rule a2b_step1) (rule xx(5))
  also have "\<dots> = a2b_base64 (CHR ''='' # cs) 2 (0 + 1) ((x mod 4 * 16) mod 16)
                      (out @ [char_of (x div 4 * 4 + (x mod 4 * 16) div 16)])"
    by (rule a2b_pad_more) simp_all
  also have "\<dots> = Inr (out @ [char_of (x div 4 * 4 + (x mod 4 * 16) div 16)])"
    by (rule a2b_pad_done) simp_all
  also have "\<dots> = Inr (out @ [char_of x])"
    by (simp only: xx(12))
  finally show ?thesis .
qed

lemma a2b_tail2_nat:
  fixes x y :: nat
  assumes x: "x < 256" and y: "y < 256"
  shows "a2b_base64
           (b64_char (x div 4) # b64_char (x mod 4 * 16 + y div 16)
            # b64_char (y mod 16 * 4) # CHR ''='' # cs)
           0 pads lc out
         = Inr (out @ [char_of x, char_of y])"
proof -
  note xy = byte_parts [OF x y] and yy = byte_parts [OF y y]
  have "a2b_base64
           (b64_char (x div 4) # b64_char (x mod 4 * 16 + y div 16)
            # b64_char (y mod 16 * 4) # CHR ''='' # cs)
           0 pads lc out
        = a2b_base64
           (b64_char (x mod 4 * 16 + y div 16) # b64_char (y mod 16 * 4) # CHR ''='' # cs)
           (Suc 0) 0 (x div 4) out"
    by (rule a2b_step0) (rule xy(1))
  also have "\<dots> = a2b_base64 (b64_char (y mod 16 * 4) # CHR ''='' # cs)
           2 0 ((x mod 4 * 16 + y div 16) mod 16)
           (out @ [char_of (x div 4 * 4 + (x mod 4 * 16 + y div 16) div 16)])"
    by (rule a2b_step1) (rule xy(2))
  also have "\<dots> = a2b_base64 (b64_char (y mod 16 * 4) # CHR ''='' # cs)
           2 0 (y div 16) (out @ [char_of x])"
    by (simp only: xy(7) xy(8))
  also have "\<dots> = a2b_base64 (CHR ''='' # cs) 3 0 ((y mod 16 * 4) mod 4)
           ((out @ [char_of x]) @ [char_of (y div 16 * 16 + (y mod 16 * 4) div 4)])"
    by (rule a2b_step2) (rule yy(6))
  also have "\<dots> = Inr ((out @ [char_of x]) @ [char_of (y div 16 * 16 + (y mod 16 * 4) div 4)])"
    by (rule a2b_pad_done) simp_all
  also have "\<dots> = Inr (out @ [char_of x, char_of y])"
    by (simp only: yy(13) append_assoc append_Cons append_Nil)
  finally show ?thesis .
qed

lemma b64encode_unpadded_simps:
  "b64encode_unpadded [] = []"
  "b64encode_unpadded [a] = [b64_char (of_char a div 4), b64_char (of_char a mod 4 * 16)]"
  "b64encode_unpadded [a, b] =
     [b64_char (of_char a div 4), b64_char (of_char a mod 4 * 16 + of_char b div 16),
      b64_char (of_char b mod 16 * 4)]"
  "b64encode_unpadded (a # b # c # bs) =
     b64_char (of_char a div 4) # b64_char (of_char a mod 4 * 16 + of_char b div 16)
     # b64_char (of_char b mod 16 * 4 + of_char c div 64) # b64_char (of_char c mod 64)
     # b64encode_unpadded bs"
proof -
  have a: "(of_char a :: nat) < 256" and b: "(of_char b :: nat) < 256"
    and c: "(of_char c :: nat) < 256" by simp_all
  note ne = b64_char_not_pad [OF byte_parts(1) [OF a b]] b64_char_not_pad [OF byte_parts(2) [OF a b]]
    b64_char_not_pad [OF byte_parts(3) [OF b c]] b64_char_not_pad [OF byte_parts(4) [OF c c]]
    b64_char_not_pad [OF byte_parts(5) [OF a a]] b64_char_not_pad [OF byte_parts(6) [OF b b]]
  show "b64encode_unpadded [] = []" by (simp add: b64encode_unpadded_def)
  show "b64encode_unpadded [a] = [b64_char (of_char a div 4), b64_char (of_char a mod 4 * 16)]"
    unfolding b64encode_unpadded_def b64encode.simps using ne by simp
  show "b64encode_unpadded [a, b] =
     [b64_char (of_char a div 4), b64_char (of_char a mod 4 * 16 + of_char b div 16),
      b64_char (of_char b mod 16 * 4)]"
    unfolding b64encode_unpadded_def b64encode.simps using ne by simp
  show "b64encode_unpadded (a # b # c # bs) =
     b64_char (of_char a div 4) # b64_char (of_char a mod 4 * 16 + of_char b div 16)
     # b64_char (of_char b mod 16 * 4 + of_char c div 64) # b64_char (of_char c mod 64)
     # b64encode_unpadded bs"
    unfolding b64encode_unpadded_def b64encode.simps using ne by simp
qed

lemma a2b_unpadded:
  "a2b_base64 (b64encode_unpadded bs @ ''=='') 0 pads lc out = Inr (out @ bs)"
proof (induction bs arbitrary: pads lc out rule: b64encode.induct)
  case 1
  show ?case by (simp add: b64encode_unpadded_simps)
next
  case (2 a)
  show ?case
    using a2b_tail1_nat [of "of_char a" "[]" pads lc out]
    by (simp only: b64encode_unpadded_simps append_Cons append_Nil nat_of_char_less_256
        char_of_char)
next
  case (3 a b)
  show ?case
    using a2b_tail2_nat [of "of_char a" "of_char b" "[CHR ''='']" pads lc out]
    by (simp only: b64encode_unpadded_simps append_Cons append_Nil nat_of_char_less_256
        char_of_char)
next
  case (4 a b c bs)
  show ?case
    using a2b_group_nat [of "of_char a" "of_char b" "of_char c" "b64encode_unpadded bs @ ''==''"
        pads lc out]
      "4.IH" [of 0 0 "out @ [a, b, c]"]
    by (simp only: b64encode_unpadded_simps append_Cons append_Nil append_assoc
        nat_of_char_less_256 char_of_char)
qed

lemma a2b_padded:
  "a2b_base64 (b64encode bs @ ''=='') 0 pads lc out = Inr (out @ bs)"
proof (induction bs arbitrary: pads lc out rule: b64encode.induct)
  case 1
  show ?case by simp
next
  case (2 a)
  show ?case
    using a2b_tail1_nat [of "of_char a" "''==''" pads lc out]
    by (simp only: b64encode.simps append_Cons append_Nil nat_of_char_less_256 char_of_char)
next
  case (3 a b)
  show ?case
    using a2b_tail2_nat [of "of_char a" "of_char b" "''==''" pads lc out]
    by (simp only: b64encode.simps append_Cons append_Nil nat_of_char_less_256 char_of_char)
next
  case (4 a b c bs)
  show ?case
    using a2b_group_nat [of "of_char a" "of_char b" "of_char c" "b64encode bs @ ''==''"
        pads lc out]
      "4.IH" [of 0 0 "out @ [a, b, c]"]
    by (simp only: b64encode.simps append_Cons append_Nil append_assoc
        nat_of_char_less_256 char_of_char)
qed

lemma b64encode_chars: "set (b64encode bs) \<subseteq> set b64_alphabet \<union> {CHR ''=''}"
proof (induction bs rule: b64encode.induct)
  case 1
  then show ?case by simp
next
  case (2 a)
  have a: "(of_char a :: nat) < 256" by simp
  show ?case by (simp add: b64_char_mem byte_parts(1,5) [OF a a])
next
  case (3 a b)
  have a: "(of_char a :: nat) < 256" and b: "(of_char b :: nat) < 256" by simp_all
  show ?case by (simp add: b64_char_mem byte_parts(1,2) [OF a b] byte_parts(6) [OF b b])
next
  case (4 a b c bs)
  have a: "(of_char a :: nat) < 256" and b: "(of_char b :: nat) < 256"
    and c: "(of_char c :: nat) < 256" by simp_all
  show ?case using "4.IH"
    by (simp add: b64_char_mem byte_parts(1,2) [OF a b] byte_parts(3) [OF b c]
        byte_parts(4) [OF c c])
qed

lemma b64encode_unpadded_chars: "set (b64encode_unpadded bs) \<subseteq> set b64_alphabet"
  using b64encode_chars [of bs] by (auto simp add: b64encode_unpadded_def)

lemma b64_ascii: "c \<in> set b64_alphabet \<Longrightarrow> \<not> 127 < (of_char c :: nat)"
  using b64_alphabet_chars by blast

lemma b64_text_ascii:
  assumes "set s \<subseteq> set b64_alphabet \<union> {CHR ''=''}"
  shows "\<not> (\<exists>c \<in> set (s @ ''==''). 127 < (of_char c :: nat))"
proof
  assume "\<exists>c \<in> set (s @ ''==''). 127 < (of_char c :: nat)"
  then obtain c where c: "c \<in> set (s @ ''=='')" and big: "127 < (of_char c :: nat)" by blast
  from c assms have "c \<in> set b64_alphabet \<or> c = CHR ''=''" by auto
  then show False
  proof
    assume "c \<in> set b64_alphabet"
    from b64_ascii [OF this] big show False by blast
  next
    assume "c = CHR ''=''"
    with big show False by simp
  qed
qed

lemma b64decode_unpadded: "b64decode (b64encode_unpadded bs @ ''=='') = Inr bs"
proof -
  have "set (b64encode_unpadded bs) \<subseteq> set b64_alphabet \<union> {CHR ''=''}"
    using b64encode_unpadded_chars [of bs] by blast
  from b64_text_ascii [OF this] show ?thesis
    unfolding b64decode_def using a2b_unpadded [of bs 0 0 "[]"]
    by (simp only: if_False append_Nil)
qed

lemma b64decode_padded: "b64decode (b64encode bs @ ''=='') = Inr bs"
proof -
  from b64_text_ascii [OF b64encode_chars] show ?thesis
    unfolding b64decode_def using a2b_padded [of bs 0 0 "[]"]
    by (simp only: if_False append_Nil)
qed

lemma first_segment:
  assumes "CHR ''|'' \<notin> set seg"
  shows "takeWhile (\<lambda>c. c \<noteq> CHR ''|'') (seg @ CHR ''|'' # rest) = seg"
    and "takeWhile (\<lambda>c. c \<noteq> CHR ''|'') seg = seg"
  using assms by (induction seg) auto

lemma index_of_mem: "x \<in> set xs \<Longrightarrow> \<exists>i. index_of x xs = Some i"
  by (induction xs) auto

lemma b64_value_mem: "c \<in> set b64_alphabet \<Longrightarrow> \<exists>v. b64_value c = Some v"
  by (simp add: b64_value_def index_of_mem)

lemma a2b_alphabet_char:
  assumes "c \<in> set b64_alphabet" and "quad_pos < 4"
  shows "\<exists>lc' out'. a2b_base64 (c # cs) quad_pos pads lc out
                     = a2b_base64 cs (Suc quad_pos mod 4) 0 lc' out'"
proof -
  from assms(1) obtain v where v: "b64_value c = Some v" using b64_value_mem by blast
  from assms(1) have ne: "c \<noteq> CHR ''=''" using b64_alphabet_chars by blast
  from assms(2) consider "quad_pos = 0" | "quad_pos = 1" | "quad_pos = 2" | "quad_pos = 3"
    by linarith
  then show ?thesis
  proof cases
    case 1
    then have eq: "Suc quad_pos mod 4 = Suc 0" by simp
    have "a2b_base64 (c # cs) quad_pos pads lc out = a2b_base64 cs (Suc 0) 0 v out"
      using 1 v ne by simp
    then show ?thesis unfolding eq by blast
  next
    case 2
    then have eq: "Suc quad_pos mod 4 = 2" by simp
    have "a2b_base64 (c # cs) quad_pos pads lc out
            = a2b_base64 cs 2 0 (v mod 16) (out @ [char_of (lc * 4 + v div 16)])"
      using 2 v ne by simp
    then show ?thesis unfolding eq by blast
  next
    case 3
    then have eq: "Suc quad_pos mod 4 = 3" by simp
    have "a2b_base64 (c # cs) quad_pos pads lc out
            = a2b_base64 cs 3 0 (v mod 4) (out @ [char_of (lc * 16 + v div 4)])"
      using 3 v ne by simp
    then show ?thesis unfolding eq by blast
  next
    case 4
    then have eq: "Suc quad_pos mod 4 = 0" by simp
    have "a2b_base64 (c # cs) quad_pos pads lc out
            = a2b_base64 cs 0 0 0 (out @ [char_of (lc * 64 + v)])"
      using 4 v ne by simp
    then show ?thesis unfolding eq by blast
  qed
qed

lemma a2b_alphabet_run:
  assumes "set seg \<subseteq> set b64_alphabet" and "quad_pos < 4"
  shows "\<exists>pads' lc' out'. a2b_base64 (seg @ rest) quad_pos pads lc out
                     = a2b_base64 rest ((quad_pos + length seg) mod 4) pads' lc' out'"
  using assms
proof (induction seg arbitrary: quad_pos pads lc out)
  case Nil
  then show ?case by auto
next
  case (Cons c seg)
  from Cons.prems have c: "c \<in> set b64_alphabet" and seg: "set seg \<subseteq> set b64_alphabet"
    by simp_all
  from a2b_alphabet_char [OF c Cons.prems(2)] obtain lc1 out1 where
    step: "a2b_base64 (c # seg @ rest) quad_pos pads lc out
             = a2b_base64 (seg @ rest) (Suc quad_pos mod 4) 0 lc1 out1"
    by blast
  have "Suc quad_pos mod 4 < 4" by simp
  from Cons.IH [OF seg this, of 0 lc1 out1] obtain pads' lc' out' where
    "a2b_base64 (seg @ rest) (Suc quad_pos mod 4) 0 lc1 out1
       = a2b_base64 rest ((Suc quad_pos mod 4 + length seg) mod 4) pads' lc' out'"
    by blast
  moreover have "(Suc quad_pos mod 4 + length seg) mod 4 = (quad_pos + length (c # seg)) mod 4"
    by (simp add: mod_add_left_eq)
  ultimately show ?case using step by (metis append_Cons)
qed

lemma b64decode_bad_length:
  assumes "set seg \<subseteq> set b64_alphabet" and "length seg mod 4 = 1"
  shows "b64decode (seg @ ''=='') = Inl Base64Error"
proof -
  from a2b_alphabet_run [OF assms(1), of 0 "''==''" 0 0 "[]"] assms(2)
  obtain pads' lc' out' where
    "a2b_base64 (seg @ ''=='') 0 0 0 [] = a2b_base64 ''=='' 1 pads' lc' out'"
    by auto
  then have "a2b_base64 (seg @ ''=='') 0 0 0 [] = Inl Base64Error" by simp
  moreover have "set seg \<subseteq> set b64_alphabet \<union> {CHR ''=''}" using assms(1) by blast
  ultimately show ?thesis
    unfolding b64decode_def using b64_text_ascii by (simp only: if_False)
qed

lemma u_decode_user_id_segment:
  "u_decode_user_id json_loads tok =
     (case b64decode (takeWhile (\<lambda>c. c \<noteq> CHR ''|'') tok @ ''=='') of
        Inl e \<Rightarrow> Inl e
      | Inr bytes \<Rightarrow>
          (case json_loads bytes of
             Inl e \<Rightarrow> Inl e
           | Inr decoded \<Rightarrow> py_getitem decoded ''user_id''))"
  by (simp add: u_decode_user_id_def Let_def)

lemma authenticate_result:
  assumes "unicode_escape (cookie_value auth_cookie) = Inr unescaped"
    and "legal_key (cookie_name auth_cookie)"
  shows "fst (authenticate unicode_escape legal_key json_loads auth_cookie s)
           = u_decode_user_id json_loads (filter (\<lambda>c. c \<noteq> CHR 0x22) unescaped)"
  using assms by (simp add: authenticate_def Let_def)

text \<open>
  C6, as the claim states it, fails. A first segment with an exclamation mark in it is
  not Base64, so the token is malformed; yet \<^verbatim>\<open>authenticate\<close> does not fail on it.
  The decoder passes over the exclamation mark, and \<^verbatim>\<open>authenticate\<close> returns the
  \<^verbatim>\<open>user_id\<close> of the payload that the other characters encode.
\<close>

theorem authenticate_skips_characters_outside_base64:
  "b64_value (CHR ''!'') = None
   \<and> fst (authenticate Inr (\<lambda>k. True) ref_json_loads
          \<lparr>cookie_name = ''_simpleauth_sess'',
            cookie_value = ''eyJ1c2Vy!X2lkIjoxfQ|1600000000|5a1b''\<rparr>
          (new_client ()))
     = Inr (JInt 1)"
  by code_simp

text \<open>
  C6, amended. Let the cookie value pass the codec and the cookie name be legal, let
  the token be the value without its quote characters and the segment its text before
  the first bar. If the segment is the Base64 text of a payload, without its padding
  or with it, and the payload is JSON with a \<^verbatim>\<open>user_id\<close>, \<^verbatim>\<open>authenticate\<close> returns
  that \<^verbatim>\<open>user_id\<close>. It fails with the error of the step that failed, and returns no
  id, when the decoder refuses the segment with \<^verbatim>\<open>==\<close> appended (as it does for a
  segment of Base64 characters whose number is one more than a multiple of four, and
  for a segment with a character above 127), when the payload is not JSON, and when the
  payload has no \<^verbatim>\<open>user_id\<close>.
\<close>

theorem authenticate_decodes_user_id:
  assumes "unicode_escape (cookie_value auth_cookie) = Inr unescaped"
    and "legal_key (cookie_name auth_cookie)"
    and "token = filter (\<lambda>c. c \<noteq> CHR 0x22) unescaped"
    and "segment = takeWhile (\<lambda>c. c \<noteq> CHR ''|'') token"
  shows "((segment = b64encode_unpadded payload \<or> segment = b64encode payload)
            \<and> json_loads payload = Inr decoded \<and> py_getitem decoded ''user_id'' = Inr uid
          \<longrightarrow> fst (authenticate unicode_escape legal_key json_loads auth_cookie s) = Inr uid)
       \<and> (set segment \<subseteq> set b64_alphabet \<and> length segment mod 4 = 1
          \<longrightarrow> fst (authenticate unicode_escape legal_key json_loads auth_cookie s)
                = Inl Base64Error)
       \<and> ((\<exists>c \<in> set segment. 127 < (of_char c :: nat))
          \<longrightarrow> fst (authenticate unicode_escape legal_key json_loads auth_cookie s)
                = Inl ValueError)
       \<and> (b64decode (segment @ ''=='') = Inl e
          \<longrightarrow> fst (authenticate unicode_escape legal_key json_loads auth_cookie s) = Inl e)
       \<and> (b64decode (segment @ ''=='') = Inr bytes \<and> json_loads bytes = Inl e
          \<longrightarrow> fst (authenticate unicode_escape legal_key json_loads auth_cookie s) = Inl e)
       \<and> (b64decode (segment @ ''=='') = Inr bytes \<and> json_loads bytes = Inr decoded'
            \<and> py_getitem decoded' ''user_id'' = Inl e
          \<longrightarrow> fst (authenticate unicode_escape legal_key json_loads auth_cookie s) = Inl e)"
proof -
  have res: "fst (authenticate unicode_escape legal_key json_loads auth_cookie s)
               = (case b64decode (segment @ ''=='') of
                    Inl e \<Rightarrow> Inl e
                  | Inr bytes \<Rightarrow>
                      (case json_loads bytes of
                         Inl e \<Rightarrow> Inl e
                       | Inr decoded \<Rightarrow> py_getitem decoded ''user_id''))"
    unfolding authenticate_result
        [where unicode_escape = unicode_escape and legal_key = legal_key, OF assms(1,2)]
      u_decode_user_id_segment assms(3,4) ..
  have valid: "fst (authenticate unicode_escape legal_key json_loads auth_cookie s) = Inr uid"
    if "segment = b64encode_unpadded payload \<or> segment = b64encode payload"
      and "json_loads payload = Inr decoded" and "py_getitem decoded ''user_id'' = Inr uid"
  proof -
    from that(1) have "b64decode (segment @ ''=='') = Inr payload"
      using b64decode_unpadded b64decode_padded by blast
    with that(2,3) show ?thesis unfolding res by simp
  qed
  have bad: "fst (authenticate unicode_escape legal_key json_loads auth_cookie s)
               = Inl Base64Error"
    if "set segment \<subseteq> set b64_alphabet" and "length segment mod 4 = 1"
    unfolding res using b64decode_bad_length [OF that] by simp
  have big: "fst (authenticate unicode_escape legal_key json_loads auth_cookie s)
               = Inl ValueError"
    if "\<exists>c \<in> set segment. 127 < (of_char c :: nat)"
  proof -
    from that have "\<exists>c \<in> set (segment @ ''==''). 127 < (of_char c :: nat)" by auto
    then have "b64decode (segment @ ''=='') = Inl ValueError"
      unfolding b64decode_def by (simp only: if_True)
    then show ?thesis unfolding res by simp
  qed
  show ?thesis
    using valid bad big by (simp add: res)
qed

theorem authenticate_decodes_user_id_witness:
  "fst (authenticate Inr (\<lambda>k. True) ref_json_loads
          \<lparr>cookie_name = ''_simpleauth_sess'',
            cookie_value = ''\"eyJ1c2VyX2lkIjoxfQ|1600000000|5a1b\"''\<rparr>
          (new_client ()))
     = Inr (JInt 1)
   \<and> fst (authenticate Inr (\<lambda>k. True) ref_json_loads
          \<lparr>cookie_name = ''_simpleauth_sess'', cookie_value = ''eyJ1c|1600000000|5a1b''\<rparr>
          (new_client ()))
     = Inl Base64Error
   \<and> fst (authenticate Inr (\<lambda>k. True) ref_json_loads
          \<lparr>cookie_name = ''_simpleauth_sess'',
            cookie_value = ''eyJ1c2Vy'' @ [CHR 0xE9] @ ''X2lkIjoxfQ|1600000000|5a1b''\<rparr>
          (new_client ()))
     = Inl ValueError"
proof -
  have seg: "takeWhile (\<lambda>c. c \<noteq> CHR ''|'')
               (filter (\<lambda>c. c \<noteq> CHR 0x22) ''\"eyJ1c2VyX2lkIjoxfQ|1600000000|5a1b\"'')
             = b64encode_unpadded ''{\"user_id\":1}''"
    by code_simp
  have loads: "ref_json_loads ''{\"user_id\":1}'' = Inr (JObj [(''user_id'', JInt 1)])"
    by code_simp
  have item: "py_getitem (JObj [(''user_id'', JInt 1)]) ''user_id'' = Inr (JInt 1)"
    by simp
  have good: "fst (authenticate Inr (\<lambda>k. True) ref_json_loads
          \<lparr>cookie_name = ''_simpleauth_sess'',
            cookie_value = ''\"eyJ1c2VyX2lkIjoxfQ|1600000000|5a1b\"''\<rparr>
          (new_client ()))
     = Inr (JInt 1)"
    using authenticate_decodes_user_id
      [where unicode_escape = Inr and legal_key = "\<lambda>k. True" and json_loads = ref_json_loads
         and auth_cookie = "\<lparr>cookie_name = ''_simpleauth_sess'',
                              cookie_value = ''\"eyJ1c2VyX2lkIjoxfQ|1600000000|5a1b\"''\<rparr>"
         and unescaped = "''\"eyJ1c2VyX2lkIjoxfQ|1600000000|5a1b\"''"
         and token = "filter (\<lambda>c. c \<noteq> CHR 0x22) ''\"eyJ1c2VyX2lkIjoxfQ|1600000000|5a1b\"''"
         and segment = "takeWhile (\<lambda>c. c \<noteq> CHR ''|'')
               (filter (\<lambda>c. c \<noteq> CHR 0x22) ''\"eyJ1c2VyX2lkIjoxfQ|1600000000|5a1b\"'')"
         and payload = "''{\"user_id\":1}''"
         and decoded = "JObj [(''user_id'', JInt 1)]" and uid = "JInt 1"
         and s = "new_client ()", OF _ _ refl refl, THEN conjunct1]
      seg loads item
    by simp
  have seg2: "takeWhile (\<lambda>c. c \<noteq> CHR ''|'')
                (filter (\<lambda>c. c \<noteq> CHR 0x22) ''eyJ1c|1600000000|5a1b'') = ''eyJ1c''"
    by code_simp
  have alpha: "set ''eyJ1c'' \<subseteq> set b64_alphabet"
    by (simp add: b64_alphabet_def)
  have bad: "fst (authenticate Inr (\<lambda>k. True) ref_json_loads
          \<lparr>cookie_name = ''_simpleauth_sess'', cookie_value = ''eyJ1c|1600000000|5a1b''\<rparr>
          (new_client ()))
     = Inl Base64Error"
    using authenticate_decodes_user_id
      [where unicode_escape = Inr and legal_key = "\<lambda>k. True" and json_loads = ref_json_loads
         and auth_cookie = "\<lparr>cookie_name = ''_simpleauth_sess'',
                              cookie_value = ''eyJ1c|1600000000|5a1b''\<rparr>"
         and unescaped = "''eyJ1c|1600000000|5a1b''"
         and token = "filter (\<lambda>c. c \<noteq> CHR 0x22) ''eyJ1c|1600000000|5a1b''"
         and segment = "''eyJ1c''"
         and s = "new_client ()", OF _ _ refl, THEN conjunct2, THEN conjunct1]
      seg2 alpha
    by simp
  have seg3: "takeWhile (\<lambda>c. c \<noteq> CHR ''|'')
                (filter (\<lambda>c. c \<noteq> CHR 0x22)
                   (''eyJ1c2Vy'' @ [CHR 0xE9] @ ''X2lkIjoxfQ|1600000000|5a1b''))
              = ''eyJ1c2Vy'' @ [CHR 0xE9] @ ''X2lkIjoxfQ''"
    by code_simp
  have high: "\<exists>c \<in> set (''eyJ1c2Vy'' @ [CHR 0xE9] @ ''X2lkIjoxfQ''). 127 < (of_char c :: nat)"
    by code_simp
  have big: "fst (authenticate Inr (\<lambda>k. True) ref_json_loads
          \<lparr>cookie_name = ''_simpleauth_sess'',
            cookie_value = ''eyJ1c2Vy'' @ [CHR 0xE9] @ ''X2lkIjoxfQ|1600000000|5a1b''\<rparr>
          (new_client ()))
     = Inl ValueError"
    using authenticate_decodes_user_id
      [where unicode_escape = Inr and legal_key = "\<lambda>k. True" and json_loads = ref_json_loads
         and auth_cookie = "\<lparr>cookie_name = ''_simpleauth_sess'',
            cookie_value = ''eyJ1c2Vy'' @ [CHR 0xE9] @ ''X2lkIjoxfQ|1600000000|5a1b''\<rparr>"
         and unescaped = "''eyJ1c2Vy'' @ [CHR 0xE9] @ ''X2lkIjoxfQ|1600000000|5a1b''"
         and token = "filter (\<lambda>c. c \<noteq> CHR 0x22)
                        (''eyJ1c2Vy'' @ [CHR 0xE9] @ ''X2lkIjoxfQ|1600000000|5a1b'')"
         and segment = "''eyJ1c2Vy'' @ [CHR 0xE9] @ ''X2lkIjoxfQ''"
         and s = "new_client ()", OF _ _ refl,
       THEN conjunct2, THEN conjunct2, THEN conjunct1]
      seg3 high
    by simp
  from good bad big show ?thesis by blast
qed

text \<open>
  C9. When the cookie value passes the codec and the cookie name is legal, the cookie
  is in the jar before \<^verbatim>\<open>_decode_user_id\<close> runs. If the decoding then raises,
  \<^verbatim>\<open>authenticate\<close> raises the same exception and leaves a session that holds the
  reconstructed cookie: \<^verbatim>\<open>is_authenticated\<close> is true.
\<close>

theorem authenticate_failure_leaves_cookie:
  assumes "unicode_escape (cookie_value auth_cookie) = Inr unescaped"
    and "legal_key (cookie_name auth_cookie)"
    and "u_decode_user_id json_loads (filter (\<lambda>c. c \<noteq> CHR 0x22) unescaped) = Inl e"
  shows "fst (authenticate unicode_escape legal_key json_loads auth_cookie s) = Inl e
       \<and> is_authenticated (snd (authenticate unicode_escape legal_key json_loads auth_cookie s))
       \<and> map_of (cookie_jar (snd (authenticate unicode_escape legal_key json_loads auth_cookie s)))
            (cookie_name auth_cookie)
           = Some (filter (\<lambda>c. c \<noteq> CHR 0x22) unescaped)"
proof -
  have "AList.update k v al \<noteq> []" for k :: string and v :: string and al
    by (cases al) auto
  then show ?thesis
    using assms by (simp add: authenticate_def is_authenticated_def Let_def update_conv')
qed

lemma decode_token_without_user_id:
  "u_decode_user_id ref_json_loads ''e30|1600000000|5a1b'' = Inl (KeyError ''user_id'')"
  by code_simp

theorem authenticate_failure_leaves_cookie_witness:
  "\<not> is_authenticated (new_client ())
   \<and> fst (authenticate Inr (\<lambda>k. True) ref_json_loads
          \<lparr>cookie_name = ''_simpleauth_sess'', cookie_value = ''e30|1600000000|5a1b''\<rparr>
          (new_client ()))
     = Inl (KeyError ''user_id'')
   \<and> is_authenticated (snd (authenticate Inr (\<lambda>k. True) ref_json_loads
          \<lparr>cookie_name = ''_simpleauth_sess'', cookie_value = ''e30|1600000000|5a1b''\<rparr>
          (new_client ())))"
proof -
  have a: "Inr (cookie_value \<lparr>cookie_name = ''_simpleauth_sess'',
                              cookie_value = ''e30|1600000000|5a1b''\<rparr>)
             = (Inr ''e30|1600000000|5a1b'' :: exn + string)"
    by simp
  have b: "u_decode_user_id ref_json_loads
             (filter (\<lambda>c. c \<noteq> CHR 0x22) ''e30|1600000000|5a1b'') = Inl (KeyError ''user_id'')"
    using decode_token_without_user_id by simp
  have c: "\<not> is_authenticated (new_client ())"
    by (simp add: is_authenticated_def new_client_def)
  from authenticate_failure_leaves_cookie
         [of Inr "\<lparr>cookie_name = ''_simpleauth_sess'', cookie_value = ''e30|1600000000|5a1b''\<rparr>"
             "''e30|1600000000|5a1b''" "\<lambda>k. True" ref_json_loads "KeyError ''user_id''"
             "new_client ()", OF a _ b]
       c
  show ?thesis by simp
qed


end
